theory Spec2Isabelle
  imports Main
begin

section \<open>JavaScript values\<close>

text \<open>
  The client (\<^verbatim>\<open>src/App.jsx\<close>) handles untyped JSON data.  Values are modelled by one
  datatype.  Number values are IEEE doubles; they are kept abstract (type parameter
  \<open>'n\<close>) and every operation on them is a field of the environment below.  An object
  is the list of its own enumerable properties in enumeration order.
\<close>

datatype 'n jsval =
    JUndefined
  | JNull
  | JBool bool
  | JNum 'n
  | JStr string
  | JArr "'n jsval list"
  | JObj "(string \<times> 'n jsval) list"

type_synonym 'n obj = "(string \<times> 'n jsval) list"

text \<open>An \<^verbatim>\<open>Error\<close> object: its message and the two fields \<^verbatim>\<open>apiCall\<close> attaches.\<close>

record js_error =
  message :: string
  err_status :: "nat option"
  err_body :: "string option"

definition Error :: "string \<Rightarrow> js_error" where
  "Error msg = \<lparr>message = msg, err_status = None, err_body = None\<rparr>"

text \<open>The \<^verbatim>\<open>init\<close> argument of \<^verbatim>\<open>fetch\<close> together with the URL, and the response.\<close>

record request =
  url :: string
  http_method :: string
  headers :: "(string \<times> string) list"
  body :: "string option"

record response =
  status :: nat
  statusText :: string
  text_body :: string

text \<open>
  The id token of an Amplify session is either a string or an object with a
  \<^verbatim>\<open>toString\<close> method; \<open>None\<close> stands for every way \<^verbatim>\<open>session?.tokens?.idToken\<close>
  evaluates to \<^verbatim>\<open>undefined\<close> or \<^verbatim>\<open>null\<close>.
\<close>

datatype id_token = TokenString string | TokenObject string

text \<open>
  Everything the program uses and does not define: the engine's Number, Date and JSON
  built-ins where ECMAScript leaves them to the implementation or where they depend on
  doubles, the time zone of the host, the session provider and the network.  \<open>'w\<close> is
  the state of the outside world (server, session), which \<^verbatim>\<open>fetch\<close> and
  \<^verbatim>\<open>fetchAuthSession\<close> read and change.
\<close>

record ('n, 'w) env =
  num_truthy :: "'n \<Rightarrow> bool"
  num_to_string :: "'n \<Rightarrow> string"
  num_time :: "'n \<Rightarrow> int option"
  LocalTZA :: "int \<Rightarrow> bool \<Rightarrow> int"
  legacy_date_parse :: "string \<Rightarrow> int option"
  invalid_time_message :: string
  null_member_message :: "string \<Rightarrow> string"
  JSON_parse :: "string \<Rightarrow> js_error + 'n jsval"
  JSON_stringify :: "'n jsval \<Rightarrow> string"
  fetchAuthSession :: "'w \<Rightarrow> (js_error + id_token option) \<times> 'w"
  fetch :: "'w \<Rightarrow> request \<Rightarrow> (js_error + response) \<times> 'w"

text \<open>ToBoolean.\<close>

fun truthy :: "('n, 'w) env \<Rightarrow> 'n jsval \<Rightarrow> bool" where
  "truthy env JUndefined = False"
| "truthy env JNull = False"
| "truthy env (JBool b) = b"
| "truthy env (JNum n) = num_truthy env n"
| "truthy env (JStr s) = (s \<noteq> [])"
| "truthy env (JArr xs) = True"
| "truthy env (JObj kvs) = True"

text \<open>\<^verbatim>\<open>a || b\<close> on values.\<close>

definition js_or :: "('n, 'w) env \<Rightarrow> 'n jsval \<Rightarrow> 'n jsval \<Rightarrow> 'n jsval" where
  "js_or env a b = (if truthy env a then a else b)"

text \<open>Reading and writing a property of an object; a missing property reads as \<^verbatim>\<open>undefined\<close>.\<close>

definition get :: "'n obj \<Rightarrow> string \<Rightarrow> 'n jsval" where
  "get kvs k = (case map_of kvs k of Some v \<Rightarrow> v | None \<Rightarrow> JUndefined)"

fun set_prop :: "'n obj \<Rightarrow> string \<Rightarrow> 'n jsval \<Rightarrow> 'n obj" where
  "set_prop [] k v = [(k, v)]"
| "set_prop ((k', v') # kvs) k v = (if k' = k then (k, v) # kvs else (k', v') # set_prop kvs k v)"

subsection \<open>Decimal digits\<close>

definition digit_char :: "nat \<Rightarrow> char" where
  "digit_char n = char_of (48 + n)"

definition is_digit :: "char \<Rightarrow> bool" where
  "is_digit c = (48 \<le> (of_char c :: nat) \<and> (of_char c :: nat) \<le> 57)"

definition digit_val :: "char \<Rightarrow> nat" where
  "digit_val c = of_char c - 48"

text \<open>\<open>digits k n\<close>: the last \<open>k\<close> decimal digits of \<open>n\<close>, zero padded.\<close>

fun digits :: "nat \<Rightarrow> nat \<Rightarrow> string" where
  "digits 0 n = []"
| "digits (Suc k) n = digits k (n div 10) @ [digit_char (n mod 10)]"

definition read_nat :: "string \<Rightarrow> nat" where
  "read_nat s = foldl (\<lambda>a c. 10 * a + digit_val c) 0 s"

text \<open>Number-to-string for a natural number (array indices, the HTTP status).\<close>

fun dec :: "nat \<Rightarrow> string" where
  "dec n = (if n < 10 then [digit_char n] else dec (n div 10) @ [digit_char (n mod 10)])"

declare dec.simps [simp del]

text \<open>ToString, as a template literal applies it.\<close>

definition join_comma :: "string list \<Rightarrow> string" where
  "join_comma xs = (case xs of [] \<Rightarrow> [] | y # ys \<Rightarrow> foldl (\<lambda>a b. a @ '','' @ b) y ys)"

fun to_string :: "('n, 'w) env \<Rightarrow> 'n jsval \<Rightarrow> string" where
  "to_string env JUndefined = ''undefined''"
| "to_string env JNull = ''null''"
| "to_string env (JBool b) = (if b then ''true'' else ''false'')"
| "to_string env (JNum n) = num_to_string env n"
| "to_string env (JStr s) = s"
| "to_string env (JArr xs) =
     join_comma (map (\<lambda>x. if x = JUndefined \<or> x = JNull then [] else to_string env x) xs)"
| "to_string env (JObj kvs) = ''[object Object]''"

text \<open>
  \<^verbatim>\<open>{...item}\<close>: the own enumerable properties of the value.  Arrays and strings
  contribute their indices, other primitives nothing.
\<close>

definition spread :: "'n jsval \<Rightarrow> 'n obj" where
  "spread v = (case v of
      JObj kvs \<Rightarrow> kvs
    | JArr xs \<Rightarrow> map (\<lambda>i. (dec i, xs ! i)) [0..<length xs]
    | JStr s \<Rightarrow> map (\<lambda>i. (dec i, JStr [s ! i])) [0..<length s]
    | _ \<Rightarrow> [])"

text \<open>
  \<^verbatim>\<open>item.k\<close> on an arbitrary value, for a name \<open>k\<close> that is no built-in property:
  reading from \<^verbatim>\<open>null\<close> or \<^verbatim>\<open>undefined\<close> throws a TypeError.
\<close>

definition read_member :: "('n, 'w) env \<Rightarrow> 'n jsval \<Rightarrow> string \<Rightarrow> js_error + 'n jsval" where
  "read_member env v k = (case v of
      JUndefined \<Rightarrow> Inl (Error (null_member_message env k))
    | JNull \<Rightarrow> Inl (Error (null_member_message env k))
    | JObj kvs \<Rightarrow> Inr (get kvs k)
    | _ \<Rightarrow> Inr JUndefined)"

section \<open>Dates (ECMAScript, Date objects)\<close>

text \<open>
  A time value is a number of milliseconds since the epoch, or NaN; here \<open>int option\<close>
  with \<open>None\<close> for NaN.  The definitions follow the abstract operations of the
  standard.
\<close>

definition msPerDay :: int where "msPerDay = 86400000"
definition msPerHour :: int where "msPerHour = 3600000"
definition msPerMinute :: int where "msPerMinute = 60000"
definition msPerSecond :: int where "msPerSecond = 1000"

definition Day :: "int \<Rightarrow> int" where
  "Day t = t div msPerDay"

definition TimeWithinDay :: "int \<Rightarrow> int" where
  "TimeWithinDay t = t mod msPerDay"

definition DaysInYear :: "int \<Rightarrow> int" where
  "DaysInYear y =
     (if y mod 4 \<noteq> 0 then 365 else if y mod 100 \<noteq> 0 then 366
      else if y mod 400 \<noteq> 0 then 365 else 366)"

definition DayFromYear :: "int \<Rightarrow> int" where
  "DayFromYear y =
     365 * (y - 1970) + (y - 1969) div 4 - (y - 1901) div 100 + (y - 1601) div 400"

text \<open>
  The year of a day number: the largest \<open>y\<close> with \<open>DayFromYear y \<le> d\<close>, computed
  from an estimate that is off by at most one (lemma \<open>YearFromDay_greatest\<close>).
\<close>

definition YearFromDay :: "int \<Rightarrow> int" where
  "YearFromDay d =
     (let y = 1970 + (400 * d) div 146097 in
      if d < DayFromYear y then y - 1
      else if DayFromYear (y + 1) \<le> d then y + 1
      else y)"

definition YearFromTime :: "int \<Rightarrow> int" where
  "YearFromTime t = YearFromDay (Day t)"

definition InLeapYear :: "int \<Rightarrow> int" where
  "InLeapYear t = (if DaysInYear (YearFromTime t) = 366 then 1 else 0)"

definition DayWithinYear :: "int \<Rightarrow> int" where
  "DayWithinYear t = Day t - DayFromYear (YearFromTime t)"

definition MonthFromTime :: "int \<Rightarrow> int" where
  "MonthFromTime t =
     (let d = DayWithinYear t; l = InLeapYear t in
      if d < 31 then 0
      else if d < 59 + l then 1
      else if d < 90 + l then 2
      else if d < 120 + l then 3
      else if d < 151 + l then 4
      else if d < 181 + l then 5
      else if d < 212 + l then 6
      else if d < 243 + l then 7
      else if d < 273 + l then 8
      else if d < 304 + l then 9
      else if d < 334 + l then 10
      else 11)"

definition DateFromTime :: "int \<Rightarrow> int" where
  "DateFromTime t =
     (let d = DayWithinYear t; l = InLeapYear t; m = MonthFromTime t in
      if m = 0 then d + 1
      else if m = 1 then d - 30
      else if m = 2 then d - 58 - l
      else if m = 3 then d - 89 - l
      else if m = 4 then d - 119 - l
      else if m = 5 then d - 150 - l
      else if m = 6 then d - 180 - l
      else if m = 7 then d - 211 - l
      else if m = 8 then d - 242 - l
      else if m = 9 then d - 272 - l
      else if m = 10 then d - 303 - l
      else d - 333 - l)"

definition HourFromTime :: "int \<Rightarrow> int" where
  "HourFromTime t = (t div msPerHour) mod 24"

definition MinFromTime :: "int \<Rightarrow> int" where
  "MinFromTime t = (t div msPerMinute) mod 60"

definition SecFromTime :: "int \<Rightarrow> int" where
  "SecFromTime t = (t div msPerSecond) mod 60"

definition msFromTime :: "int \<Rightarrow> int" where
  "msFromTime t = t mod msPerSecond"

definition MakeTime :: "int \<Rightarrow> int \<Rightarrow> int \<Rightarrow> int \<Rightarrow> int" where
  "MakeTime h m s ms = h * msPerHour + m * msPerMinute + s * msPerSecond + ms"

text \<open>Day number of the first day of month \<open>m\<close> (0 to 11) within a year.\<close>

definition month_start :: "int \<Rightarrow> int \<Rightarrow> int" where
  "month_start m l =
     (if m = 0 then 0
      else if m = 1 then 31
      else if m = 2 then 59 + l
      else if m = 3 then 90 + l
      else if m = 4 then 120 + l
      else if m = 5 then 151 + l
      else if m = 6 then 181 + l
      else if m = 7 then 212 + l
      else if m = 8 then 243 + l
      else if m = 9 then 273 + l
      else if m = 10 then 304 + l
      else 334 + l)"

definition MakeDay :: "int \<Rightarrow> int \<Rightarrow> int \<Rightarrow> int" where
  "MakeDay year month date =
     (let ym = year + month div 12; mn = month mod 12 in
      DayFromYear ym + month_start mn (if DaysInYear ym = 366 then 1 else 0) + date - 1)"

definition MakeDate :: "int \<Rightarrow> int \<Rightarrow> int" where
  "MakeDate day time = day * msPerDay + time"

definition TimeClip :: "int \<Rightarrow> int option" where
  "TimeClip t = (if \<bar>t\<bar> > 8640000000000000 then None else Some t)"

text \<open>
  The host's time zone is the field \<open>LocalTZA\<close> of the platform: \<open>LocalTZA env t isUTC\<close>
  is the offset of local time from UTC in milliseconds (east positive), at the UTC
  time \<open>t\<close> when \<open>isUTC\<close>, and for the local time \<open>t\<close> otherwise.  It need not be a
  whole number of minutes: local mean time, in use before the standard zones, is
  not (Berlin until 1893 is 53 minutes and 28 seconds east).
\<close>

definition LocalTime :: "('n, 'w) env \<Rightarrow> int \<Rightarrow> int" where
  "LocalTime env t = t + LocalTZA env t True"

definition UTC :: "('n, 'w) env \<Rightarrow> int \<Rightarrow> int" where
  "UTC env t = t - LocalTZA env t False"

text \<open>
  \<^verbatim>\<open>Date.prototype.getTimezoneOffset\<close>, on a valid time value: the difference of the
  time and the local time in minutes.  ECMAScript writes it as the quotient of the
  difference by \<open>msPerMinute\<close>; when the offset is a whole number of minutes, that is
  the number every engine returns.  When it is not, V8 returns the whole minutes of
  the quotient, cut toward zero (\<open>trunc_div\<close>, the integer division of C++), and so
  does the definition here.
\<close>

definition trunc_div :: "int \<Rightarrow> int \<Rightarrow> int" where
  "trunc_div a b = (if a < 0 then - ((- a) div b) else a div b)"

definition getTimezoneOffset :: "('n, 'w) env \<Rightarrow> int \<Rightarrow> int" where
  "getTimezoneOffset env t = trunc_div (t - LocalTime env t) msPerMinute"

subsection \<open>\<^verbatim>\<open>toISOString\<close>\<close>

definition year_string :: "int \<Rightarrow> string" where
  "year_string y =
     (if 0 \<le> y \<and> y \<le> 9999 then digits 4 (nat y)
      else (if y < 0 then CHR ''-'' else CHR ''+'') # digits 6 (nat \<bar>y\<bar>))"

definition iso_string :: "int \<Rightarrow> string" where
  "iso_string t =
     year_string (YearFromTime t) @ ''-'' @ digits 2 (nat (MonthFromTime t + 1)) @ ''-''
       @ digits 2 (nat (DateFromTime t)) @ ''T'' @ digits 2 (nat (HourFromTime t)) @ '':''
       @ digits 2 (nat (MinFromTime t)) @ '':'' @ digits 2 (nat (SecFromTime t)) @ ''.''
       @ digits 3 (nat (msFromTime t)) @ ''Z''"

text \<open>\<^verbatim>\<open>toISOString\<close> throws a RangeError on an invalid Date.\<close>

definition toISOString :: "('n, 'w) env \<Rightarrow> int option \<Rightarrow> js_error + string" where
  "toISOString env tv =
     (case tv of None \<Rightarrow> Inl (Error (invalid_time_message env)) | Some t \<Rightarrow> Inr (iso_string t))"

subsection \<open>\<^verbatim>\<open>Date.parse\<close>: the date-time string format\<close>

definition take_digits :: "nat \<Rightarrow> string \<Rightarrow> (nat \<times> string) option" where
  "take_digits k s =
     (if k \<le> length s \<and> list_all is_digit (take k s)
      then Some (read_nat (take k s), drop k s) else None)"

text \<open>A year: four digits, or a sign and six digits (but not \<^verbatim>\<open>-000000\<close>).\<close>

definition parse_year :: "string \<Rightarrow> (int \<times> string) option" where
  "parse_year s =
     (case s of
        [] \<Rightarrow> None
      | c # r \<Rightarrow>
          if c = CHR ''+'' then
            (case take_digits 6 r of None \<Rightarrow> None | Some (n, r') \<Rightarrow> Some (int n, r'))
          else if c = CHR ''-'' then
            (case take_digits 6 r of
               None \<Rightarrow> None
             | Some (n, r') \<Rightarrow> if n = 0 then None else Some (- int n, r'))
          else
            (case take_digits 4 s of None \<Rightarrow> None | Some (n, r') \<Rightarrow> Some (int n, r')))"

text \<open>\<^verbatim>\<open>YYYY\<close>, \<^verbatim>\<open>YYYY-MM\<close> or \<^verbatim>\<open>YYYY-MM-DD\<close>; a missing month or day is 1.\<close>

definition parse_date :: "string \<Rightarrow> ((int \<times> nat \<times> nat) \<times> string) option" where
  "parse_date s =
     (case parse_year s of
        None \<Rightarrow> None
      | Some (y, r1) \<Rightarrow>
          (case r1 of
             [] \<Rightarrow> Some ((y, 1, 1), r1)
           | c1 # r2 \<Rightarrow>
               if c1 \<noteq> CHR ''-'' then Some ((y, 1, 1), r1)
               else
                 (case take_digits 2 r2 of
                    None \<Rightarrow> None
                  | Some (m, r3) \<Rightarrow>
                      (case r3 of
                         [] \<Rightarrow> Some ((y, m, 1), r3)
                       | c3 # r4 \<Rightarrow>
                           if c3 \<noteq> CHR ''-'' then Some ((y, m, 1), r3)
                           else
                             (case take_digits 2 r4 of
                                None \<Rightarrow> None
                              | Some (d, r5) \<Rightarrow> Some ((y, m, d), r5))))))"

text \<open>\<^verbatim>\<open>HH:mm\<close>, \<^verbatim>\<open>HH:mm:ss\<close> or \<^verbatim>\<open>HH:mm:ss.sss\<close>.\<close>

definition parse_time :: "string \<Rightarrow> ((nat \<times> nat \<times> nat \<times> nat) \<times> string) option" where
  "parse_time s =
     (case take_digits 2 s of
        None \<Rightarrow> None
      | Some (h, r1) \<Rightarrow>
          (case r1 of
             [] \<Rightarrow> None
           | c1 # r2 \<Rightarrow>
               if c1 \<noteq> CHR '':'' then None
               else
                 (case take_digits 2 r2 of
                    None \<Rightarrow> None
                  | Some (mi, r3) \<Rightarrow>
                      (case r3 of
                         [] \<Rightarrow> Some ((h, mi, 0, 0), r3)
                       | c3 # r4 \<Rightarrow>
                           if c3 \<noteq> CHR '':'' then Some ((h, mi, 0, 0), r3)
                           else
                             (case take_digits 2 r4 of
                                None \<Rightarrow> None
                              | Some (sec, r5) \<Rightarrow>
                                  (case r5 of
                                     [] \<Rightarrow> Some ((h, mi, sec, 0), r5)
                                   | c5 # r6 \<Rightarrow>
                                       if c5 \<noteq> CHR ''.'' then Some ((h, mi, sec, 0), r5)
                                       else
                                         (case take_digits 3 r6 of
                                            None \<Rightarrow> None
                                          | Some (ms, r7) \<Rightarrow> Some ((h, mi, sec, ms), r7))))))))"

text \<open>
  The UTC offset at the end of the string: absent, \<^verbatim>\<open>Z\<close>, or a sign with
  \<^verbatim>\<open>HH:mm\<close>.  The result is the sign and the two numbers.
\<close>

datatype utc_offset = NoOffset | Zulu | Shift bool nat nat

definition parse_offset :: "string \<Rightarrow> utc_offset option" where
  "parse_offset s =
     (case s of
        [] \<Rightarrow> Some NoOffset
      | c # r \<Rightarrow>
          if c = CHR ''Z'' then (if r = [] then Some Zulu else None)
          else if c = CHR ''+'' \<or> c = CHR ''-'' then
            (case take_digits 2 r of
               None \<Rightarrow> None
             | Some (h, r1) \<Rightarrow>
                 (case r1 of
                    [] \<Rightarrow> None
                  | c1 # r2 \<Rightarrow>
                      if c1 \<noteq> CHR '':'' then None
                      else
                        (case take_digits 2 r2 of
                           None \<Rightarrow> None
                         | Some (m, r3) \<Rightarrow>
                             if r3 = [] then Some (Shift (c = CHR ''-'') h m) else None)))
          else None)"

record iso_fields =
  f_year :: int
  f_month :: nat
  f_day :: nat
  f_has_time :: bool
  f_hour :: nat
  f_minute :: nat
  f_second :: nat
  f_ms :: nat
  f_offset :: utc_offset

definition parse_iso :: "string \<Rightarrow> iso_fields option" where
  "parse_iso s =
     (case parse_date s of
        None \<Rightarrow> None
      | Some ((y, m, d), r) \<Rightarrow>
          (case r of
             [] \<Rightarrow>
               Some \<lparr>f_year = y, f_month = m, f_day = d, f_has_time = False, f_hour = 0,
                     f_minute = 0, f_second = 0, f_ms = 0, f_offset = NoOffset\<rparr>
           | c # r1 \<Rightarrow>
               if c \<noteq> CHR ''T'' then None
               else
                 (case parse_time r1 of
                    None \<Rightarrow> None
                  | Some ((h, mi, sec, ms), r2) \<Rightarrow>
                      (case parse_offset r2 of
                         None \<Rightarrow> None
                       | Some off \<Rightarrow>
                           Some \<lparr>f_year = y, f_month = m, f_day = d, f_has_time = True,
                                 f_hour = h, f_minute = mi, f_second = sec, f_ms = ms,
                                 f_offset = off\<rparr>))))"

definition DaysInMonth :: "int \<Rightarrow> nat \<Rightarrow> nat" where
  "DaysInMonth y m =
     (if m = 2 then (if DaysInYear y = 366 then 29 else 28)
      else if m = 4 \<or> m = 6 \<or> m = 9 \<or> m = 11 then 30 else 31)"

text \<open>
  The element values every engine accepts: a day that exists in its month, an hour
  below 24 (or exactly 24:00:00.000), minutes and seconds below 60.
\<close>

definition legal_fields :: "iso_fields \<Rightarrow> bool" where
  "legal_fields f =
     (1 \<le> f_month f \<and> f_month f \<le> 12 \<and> 1 \<le> f_day f \<and> f_day f \<le> DaysInMonth (f_year f) (f_month f)
      \<and> (f_hour f < 24 \<or> (f_hour f = 24 \<and> f_minute f = 0 \<and> f_second f = 0 \<and> f_ms f = 0))
      \<and> f_minute f < 60 \<and> f_second f < 60
      \<and> (case f_offset f of Shift neg h m \<Rightarrow> h < 24 \<and> m < 60 | _ \<Rightarrow> True))"

text \<open>
  The time value of the fields.  With an offset the fields are that far from UTC;
  without one a date-only form is UTC and a date-time form is local time.
\<close>

definition fields_time :: "('n, 'w) env \<Rightarrow> iso_fields \<Rightarrow> int" where
  "fields_time env f =
     (let t = MakeDate (MakeDay (f_year f) (int (f_month f) - 1) (int (f_day f)))
                (MakeTime (int (f_hour f)) (int (f_minute f)) (int (f_second f)) (int (f_ms f)))
      in case f_offset f of
           Zulu \<Rightarrow> t
         | Shift neg h m \<Rightarrow>
             (if neg then t + (int h * 60 + int m) * msPerMinute
              else t - (int h * 60 + int m) * msPerMinute)
         | NoOffset \<Rightarrow> (if f_has_time f then UTC env t else t))"

text \<open>
  \<^verbatim>\<open>Date.parse\<close>.  A string that is not in the format, or whose element values are
  not accepted by every engine, is left to the engine's own fallback
  (\<open>legacy_date_parse\<close>).
\<close>

definition Date_parse :: "('n, 'w) env \<Rightarrow> string \<Rightarrow> int option" where
  "Date_parse env s =
     (case parse_iso s of
        None \<Rightarrow> legacy_date_parse env s
      | Some f \<Rightarrow> if legal_fields f then TimeClip (fields_time env f) else legacy_date_parse env s)"

text \<open>
  \<^verbatim>\<open>new Date(value).getTime()\<close>: a string is parsed, an object or array is first
  converted to a string, any other value to a number (\<open>num_time\<close> is the integral
  part of a Number, and \<open>None\<close> for NaN and the infinities); the constructor clips
  the result.
\<close>

definition clipped :: "int option \<Rightarrow> int option" where
  "clipped tv = (case tv of None \<Rightarrow> None | Some t \<Rightarrow> TimeClip t)"

definition Date_new :: "('n, 'w) env \<Rightarrow> 'n jsval \<Rightarrow> int option" where
  "Date_new env v =
     (case v of
        JUndefined \<Rightarrow> None
      | JNull \<Rightarrow> Some 0
      | JBool b \<Rightarrow> Some (if b then 1 else 0)
      | JNum n \<Rightarrow> clipped (num_time env n)
      | JStr s \<Rightarrow> clipped (Date_parse env s)
      | JArr xs \<Rightarrow> clipped (Date_parse env (to_string env v))
      | JObj kvs \<Rightarrow> clipped (Date_parse env (to_string env v)))"

section \<open>The API client (\<^verbatim>\<open>src/App.jsx\<close>, lines 10 to 75)\<close>

definition API_URL :: string where
  "API_URL = ''https://7x7l9qzd45.execute-api.eu-central-1.amazonaws.com/prod''"

text \<open>
  The state threaded through the asynchronous functions: the outside world, and the
  list of the requests handed to \<^verbatim>\<open>fetch\<close> so far, each with what came back.
\<close>

record 'w sys =
  world :: 'w
  netlog :: "(request \<times> (js_error + response)) list"

definition fetch_logged ::
  "('n, 'w) env \<Rightarrow> request \<Rightarrow> 'w sys \<Rightarrow> (js_error + response) \<times> 'w sys" where
  "fetch_logged env req s =
     (case fetch env (world s) req of
        (r, w) \<Rightarrow> (r, \<lparr>world = w, netlog = netlog s @ [(req, r)]\<rparr>))"

text \<open>\<^verbatim>\<open>!idToken\<close> is true for a missing token and for the empty string.\<close>

definition token_truthy :: "id_token option \<Rightarrow> bool" where
  "token_truthy idToken =
     (case idToken of None \<Rightarrow> False | Some (TokenString t) \<Rightarrow> t \<noteq> [] | Some (TokenObject t) \<Rightarrow> True)"

definition no_id_token_message :: string where
  "no_id_token_message = ''No id token available. Make sure the user is signed in.''"

definition getIdToken :: "('n, 'w) env \<Rightarrow> 'w sys \<Rightarrow> (js_error + string) \<times> 'w sys" where
  "getIdToken env s =
     (case fetchAuthSession env (world s) of
        (Inl e, w) \<Rightarrow> (Inl e, s\<lparr>world := w\<rparr>)
      | (Inr idToken, w) \<Rightarrow>
          if \<not> token_truthy idToken then (Inl (Error no_id_token_message), s\<lparr>world := w\<rparr>)
          else
            (case idToken of
               Some (TokenString t) \<Rightarrow> (Inr t, s\<lparr>world := w\<rparr>)
             | Some (TokenObject t) \<Rightarrow> (Inr t, s\<lparr>world := w\<rparr>)
             | None \<Rightarrow> (Inl (Error no_id_token_message), s\<lparr>world := w\<rparr>)))"

text \<open>\<^verbatim>\<open>res.ok\<close>: the status is in the range 200 to 299.\<close>

definition ok :: "response \<Rightarrow> bool" where
  "ok res = (200 \<le> status res \<and> status res \<le> 299)"

text \<open>Lines 34 to 46 of \<^verbatim>\<open>apiCall\<close>: what is made of the response.\<close>

definition apiCall_response :: "('n, 'w) env \<Rightarrow> response \<Rightarrow> js_error + 'n jsval" where
  "apiCall_response env res =
     (if \<not> ok res then
        Inl \<lparr>message = ''API error'', err_status = Some (status res),
             err_body = Some (case JSON_parse env (text_body res) of
                                Inr json \<Rightarrow> JSON_stringify env json
                              | Inl e \<Rightarrow> dec (status res) @ '' '' @ statusText res)\<rparr>
      else if text_body res = [] then Inr JNull
      else JSON_parse env (text_body res))"

definition apiCall ::
  "('n, 'w) env \<Rightarrow> string \<Rightarrow> string \<Rightarrow> 'n jsval \<Rightarrow> 'w sys \<Rightarrow> (js_error + 'n jsval) \<times> 'w sys" where
  "apiCall env path meth payload s =
     (case getIdToken env s of
        (Inl e, s1) \<Rightarrow> (Inl e, s1)
      | (Inr token, s1) \<Rightarrow>
          (case fetch_logged env
                  \<lparr>url = API_URL @ path, http_method = meth,
                   headers = [(''Authorization'', token), (''Content-Type'', ''application/json'')],
                   body = (if truthy env payload then Some (JSON_stringify env payload) else None)\<rparr>
                  s1 of
             (Inl e, s2) \<Rightarrow> (Inl e, s2)
           | (Inr res, s2) \<Rightarrow> (apiCall_response env res, s2)))"

definition emptyTask :: "'n obj" where
  "emptyTask =
     [(''taskId'', JNull), (''title'', JStr []), (''description'', JStr []),
      (''status'', JStr ''Pending''), (''deadline'', JStr [])]"

definition formatDateForInput :: "('n, 'w) env \<Rightarrow> 'n jsval \<Rightarrow> js_error + 'n jsval" where
  "formatDateForInput env timestamp =
     (if \<not> truthy env timestamp then Inr (JStr [])
      else
        (case Date_new env timestamp of
           None \<Rightarrow> Inr (JStr [])
         | Some t \<Rightarrow>
             (let offset = getTimezoneOffset env t;
                  local = TimeClip (t - offset * 60 * 1000)
              in case toISOString env local of
                   Inl e \<Rightarrow> Inl e
                 | Inr str \<Rightarrow> Inr (JStr (take 16 str)))))"

definition parseDateForAPI :: "('n, 'w) env \<Rightarrow> 'n jsval \<Rightarrow> js_error + 'n jsval" where
  "parseDateForAPI env localDate =
     (if \<not> truthy env localDate then Inr JNull
      else
        (case Date_new env localDate of
           None \<Rightarrow> Inr JNull
         | Some t \<Rightarrow>
             (case toISOString env (Some t) of Inl e \<Rightarrow> Inl e | Inr str \<Rightarrow> Inr (JStr str))))"

section \<open>The component \<^verbatim>\<open>App\<close> (lines 77 to 324)\<close>

record 'n app =
  tasks :: "'n obj list"
  loading :: bool
  editing :: "'n jsval"
  form :: "'n obj"
  filter_st :: string
  error :: "string option"

definition initial_app :: "'n app" where
  "initial_app =
     \<lparr>tasks = [], loading = False, editing = JNull, form = emptyTask,
      filter_st = ''Pending'', error = None\<rparr>"

text \<open>\<^verbatim>\<open>err.body ?? err.message\<close>\<close>

definition err_text :: "js_error \<Rightarrow> string" where
  "err_text e = (case err_body e of Some b \<Rightarrow> b | None \<Rightarrow> message e)"

text \<open>\<^verbatim>\<open>Array.prototype.map\<close> with a callback that may throw: the first exception ends it.\<close>

fun map_throwing :: "('a \<Rightarrow> js_error + 'b) \<Rightarrow> 'a list \<Rightarrow> js_error + 'b list" where
  "map_throwing f [] = Inr []"
| "map_throwing f (x # xs) =
     (case f x of
        Inl e \<Rightarrow> Inl e
      | Inr y \<Rightarrow> (case map_throwing f xs of Inl e \<Rightarrow> Inl e | Inr ys \<Rightarrow> Inr (y # ys)))"

text \<open>Lines 91 to 94: the callback of the normalization.\<close>

definition normalize_item :: "('n, 'w) env \<Rightarrow> 'n jsval \<Rightarrow> js_error + 'n obj" where
  "normalize_item env item =
     (case read_member env item ''deadline'' of
        Inl e \<Rightarrow> Inl e
      | Inr d \<Rightarrow>
          if truthy env d then
            (case toISOString env (Date_new env d) of
               Inl e \<Rightarrow> Inl e
             | Inr str \<Rightarrow> Inr (set_prop (spread item) ''deadline'' (JStr str)))
          else Inr (set_prop (spread item) ''deadline'' JNull))"

text \<open>Lines 90 to 95.\<close>

definition normalizedItems :: "('n, 'w) env \<Rightarrow> 'n jsval \<Rightarrow> js_error + 'n obj list" where
  "normalizedItems env items =
     (case items of JArr xs \<Rightarrow> map_throwing (normalize_item env) xs | _ \<Rightarrow> Inr [])"

text \<open>The two state updates at the start of \<^verbatim>\<open>loadTasks\<close> (lines 86 and 87).\<close>

definition loadTasks_start :: "'n app \<Rightarrow> 'n app" where
  "loadTasks_start st = st\<lparr>loading := True, error := None\<rparr>"

definition loadTasks :: "('n, 'w) env \<Rightarrow> 'n app \<times> 'w sys \<Rightarrow> 'n app \<times> 'w sys" where
  "loadTasks env c =
     (case c of (st, s) \<Rightarrow>
        (let st1 = loadTasks_start st in
         case apiCall env ''/tasks'' ''GET'' JNull s of
           (Inl err, s') \<Rightarrow> (st1\<lparr>error := Some (err_text err), loading := False\<rparr>, s')
         | (Inr items, s') \<Rightarrow>
             (case normalizedItems env items of
                Inl err \<Rightarrow> (st1\<lparr>error := Some (err_text err), loading := False\<rparr>, s')
              | Inr ts \<Rightarrow> (st1\<lparr>tasks := ts, loading := False\<rparr>, s'))))"

text \<open>Lines 112 to 116: the payload of \<^verbatim>\<open>createTask\<close>.\<close>

definition create_payload :: "('n, 'w) env \<Rightarrow> 'n obj \<Rightarrow> js_error + 'n obj" where
  "create_payload env frm =
     (case parseDateForAPI env (get frm ''deadline'') of
        Inl e \<Rightarrow> Inl e
      | Inr d \<Rightarrow>
          Inr [(''title'', get frm ''title''),
               (''description'', js_or env (get frm ''description'') (JStr [])),
               (''deadline'', js_or env d JNull)])"

definition createTask :: "('n, 'w) env \<Rightarrow> 'n app \<times> 'w sys \<Rightarrow> 'n app \<times> 'w sys" where
  "createTask env c =
     (case c of (st, s) \<Rightarrow>
        (let st1 = st\<lparr>error := None\<rparr> in
         case create_payload env (form st) of
           Inl err \<Rightarrow> (st1\<lparr>error := Some (err_text err)\<rparr>, s)
         | Inr payload \<Rightarrow>
             (case apiCall env ''/tasks'' ''POST'' (JObj payload) s of
                (Inl err, s') \<Rightarrow> (st1\<lparr>error := Some (err_text err)\<rparr>, s')
              | (Inr r, s') \<Rightarrow> loadTasks env (st1\<lparr>form := emptyTask\<rparr>, s'))))"

text \<open>Lines 128 to 134: the body of the PUT.\<close>

definition update_body :: "('n, 'w) env \<Rightarrow> 'n jsval \<Rightarrow> 'n obj \<Rightarrow> js_error + 'n obj" where
  "update_body env taskId patch =
     (case parseDateForAPI env (get patch ''deadline'') of
        Inl e \<Rightarrow> Inl e
      | Inr d \<Rightarrow>
          Inr [(''taskId'', taskId),
               (''title'', get patch ''title''),
               (''description'', js_or env (get patch ''description'') (JStr [])),
               (''deadline'', js_or env d JNull),
               (''status'', js_or env (get patch ''status'') (JStr ''Pending''))])"

definition updateTask ::
  "('n, 'w) env \<Rightarrow> 'n jsval \<Rightarrow> 'n obj \<Rightarrow> 'n app \<times> 'w sys \<Rightarrow> 'n app \<times> 'w sys" where
  "updateTask env taskId patch c =
     (case c of (st, s) \<Rightarrow>
        (let st1 = st\<lparr>error := None\<rparr> in
         case update_body env taskId patch of
           Inl err \<Rightarrow> (st1\<lparr>error := Some (err_text err)\<rparr>, s)
         | Inr b \<Rightarrow>
             (case apiCall env (''/tasks/'' @ to_string env taskId) ''PUT'' (JObj b) s of
                (Inl err, s') \<Rightarrow> (st1\<lparr>error := Some (err_text err)\<rparr>, s')
              | (Inr r, s') \<Rightarrow> loadTasks env (st1\<lparr>editing := JNull, form := emptyTask\<rparr>, s'))))"

definition removeTask ::
  "('n, 'w) env \<Rightarrow> 'n jsval \<Rightarrow> 'n app \<times> 'w sys \<Rightarrow> 'n app \<times> 'w sys" where
  "removeTask env taskId c =
     (case c of (st, s) \<Rightarrow>
        (let st1 = st\<lparr>error := None\<rparr> in
         case apiCall env (''/tasks/'' @ to_string env taskId) ''DELETE'' JNull s of
           (Inl err, s') \<Rightarrow> (st1\<lparr>error := Some (err_text err)\<rparr>, s')
         | (Inr r, s') \<Rightarrow> loadTasks env (st1, s')))"

text \<open>Lines 154 to 157.\<close>

definition visibleTasks :: "('n, 'w) env \<Rightarrow> 'n app \<Rightarrow> 'n obj list" where
  "visibleTasks env st =
     (if filter_st st = ''All'' then tasks st
      else filter (\<lambda>t. js_or env (get t ''status'') (JStr ''Pending'') = JStr (filter_st st))
             (tasks st))"

subsection \<open>The event handlers of the rendered page\<close>

text \<open>Lines 274 to 279: the Complete / Uncomplete button of task \<open>t\<close>.\<close>

definition toggle_patch :: "'n obj \<Rightarrow> 'n obj" where
  "toggle_patch t =
     set_prop t ''status''
       (if get t ''status'' = JStr ''Completed'' then JStr ''Pending'' else JStr ''Completed'')"

definition toggle_click ::
  "('n, 'w) env \<Rightarrow> 'n obj \<Rightarrow> 'n app \<times> 'w sys \<Rightarrow> 'n app \<times> 'w sys" where
  "toggle_click env t c = updateTask env (get t ''taskId'') (toggle_patch t) c"

text \<open>
  Lines 286 to 296: the Edit button.  \<^verbatim>\<open>setEditing\<close> has run when the form object is
  built, so an exception from \<^verbatim>\<open>formatDateForInput\<close> leaves the form as it was.
\<close>

definition edit_click :: "('n, 'w) env \<Rightarrow> 'n obj \<Rightarrow> 'n app \<Rightarrow> 'n app" where
  "edit_click env t st =
     (let st1 = st\<lparr>editing := get t ''taskId''\<rparr> in
      case (if truthy env (get t ''deadline'') then formatDateForInput env (get t ''deadline'')
            else Inr (JStr [])) of
        Inl e \<Rightarrow> st1
      | Inr d \<Rightarrow>
          st1\<lparr>form :=
                [(''taskId'', get t ''taskId''),
                 (''title'', js_or env (get t ''title'') (JStr [])),
                 (''description'', js_or env (get t ''description'') (JStr [])),
                 (''status'', js_or env (get t ''status'') (JStr ''Pending'')),
                 (''deadline'', d)]\<rparr>)"

text \<open>Lines 227 to 230: the Cancel button.\<close>

definition cancel_click :: "'n app \<Rightarrow> 'n app" where
  "cancel_click st = st\<lparr>editing := JNull, form := emptyTask\<rparr>"

text \<open>Lines 303 to 311: the Delete button; \<open>confirmed\<close> is the answer to the prompt.\<close>

definition delete_click ::
  "('n, 'w) env \<Rightarrow> 'n obj \<Rightarrow> bool \<Rightarrow> 'n app \<times> 'w sys \<Rightarrow> 'n app \<times> 'w sys" where
  "delete_click env t confirmed c = (if confirmed then removeTask env (get t ''taskId'') c else c)"

text \<open>Lines 191 to 198: submitting the form.\<close>

definition submit :: "('n, 'w) env \<Rightarrow> 'n app \<times> 'w sys \<Rightarrow> 'n app \<times> 'w sys" where
  "submit env c =
     (case c of (st, s) \<Rightarrow>
        if truthy env (editing st) then updateTask env (editing st) (form st) c
        else createTask env c)"

text \<open>Line 168 (the filter), and lines 204, 211, 217 (typing into a field of the form).\<close>

definition filter_change :: "string \<Rightarrow> 'n app \<Rightarrow> 'n app" where
  "filter_change f st = st\<lparr>filter_st := f\<rparr>"

definition field_change :: "string \<Rightarrow> string \<Rightarrow> 'n app \<Rightarrow> 'n app" where
  "field_change k v st = st\<lparr>form := set_prop (form st) k (JStr v)\<rparr>"

text \<open>The user's actions, and a session of the page: it loads the list once, then reacts.\<close>

datatype 'n action =
    Refresh
  | Submit
  | ToggleComplete "'n obj"
  | BeginEdit "'n obj"
  | CancelEdit
  | Delete "'n obj" bool
  | FilterChange string
  | FieldChange string string

fun step :: "('n, 'w) env \<Rightarrow> 'n app \<times> 'w sys \<Rightarrow> 'n action \<Rightarrow> 'n app \<times> 'w sys" where
  "step env c Refresh = loadTasks env c"
| "step env c Submit = submit env c"
| "step env c (ToggleComplete t) = toggle_click env t c"
| "step env c (BeginEdit t) = (edit_click env t (fst c), snd c)"
| "step env c CancelEdit = (cancel_click (fst c), snd c)"
| "step env c (Delete t confirmed) = delete_click env t confirmed c"
| "step env c (FilterChange f) = (filter_change f (fst c), snd c)"
| "step env c (FieldChange k v) = (field_change k v (fst c), snd c)"

definition mount :: "('n, 'w) env \<Rightarrow> 'w \<Rightarrow> 'n app \<times> 'w sys" where
  "mount env w = loadTasks env (initial_app, \<lparr>world = w, netlog = []\<rparr>)"

definition run :: "('n, 'w) env \<Rightarrow> 'w \<Rightarrow> 'n action list \<Rightarrow> 'n app \<times> 'w sys" where
  "run env w acts = foldl (step env) (mount env w) acts"

section \<open>The component on the event loop\<close>

text \<open>
  The operations of the component are async functions.  Each of them stops where
  \<^verbatim>\<open>apiCall\<close> awaits: for the session (line 14), and for the response and its body
  (lines 26, 37 and 45).  While a call waits, the page goes on reacting to the user
  and to the answers of the other calls: the Refresh button, the form and the buttons
  of the tasks are never disabled.  The functions above run every call to its end at
  once; the definitions below are the same code, one await at a time.

  A thread is a call of \<^verbatim>\<open>loadTasks\<close>, \<^verbatim>\<open>createTask\<close>, \<^verbatim>\<open>updateTask\<close> or
  \<^verbatim>\<open>removeTask\<close> inside \<^verbatim>\<open>apiCall\<close>: it records the caller, the arguments of
  \<^verbatim>\<open>apiCall\<close>, and what the call waits for (once the request is handed to \<^verbatim>\<open>fetch\<close>,
  the request and its position among the requests made).
\<close>

datatype caller = Load | Create | Update | Remove

datatype phase = AwaitSession | AwaitResponse nat request | Finished

record 'n thread =
  th_caller :: caller
  th_path :: string
  th_method :: string
  th_payload :: "'n jsval"
  th_phase :: phase

text \<open>
  A configuration: the state of the component, the threads in the order in which
  they were started, the requests handed to \<^verbatim>\<open>fetch\<close> in the order of the calls (each
  with its answer, once the answer has been handled), and the answered requests in
  the order in which the answers were handled.
\<close>

record 'n config =
  app :: "'n app"
  threads :: "'n thread list"
  calls :: "(request \<times> (js_error + response) option) list"
  handled :: "(request \<times> (js_error + response)) list"

text \<open>Lines 15 to 21: \<^verbatim>\<open>getIdToken\<close> after the await, on the answer of the session provider.\<close>

definition id_token_string :: "id_token option \<Rightarrow> js_error + string" where
  "id_token_string idToken =
     (if \<not> token_truthy idToken then Inl (Error no_id_token_message)
      else
        (case idToken of
           Some (TokenString t) \<Rightarrow> Inr t
         | Some (TokenObject t) \<Rightarrow> Inr t
         | None \<Rightarrow> Inl (Error no_id_token_message)))"

definition session_token :: "js_error + id_token option \<Rightarrow> js_error + string" where
  "session_token r = (case r of Inl e \<Rightarrow> Inl e | Inr idToken \<Rightarrow> id_token_string idToken)"

text \<open>Lines 26 to 33: the request that \<^verbatim>\<open>apiCall\<close> hands to \<^verbatim>\<open>fetch\<close>.\<close>

definition api_request ::
  "('n, 'w) env \<Rightarrow> string \<Rightarrow> string \<Rightarrow> 'n jsval \<Rightarrow> string \<Rightarrow> request" where
  "api_request env path meth payload token =
     \<lparr>url = API_URL @ path, http_method = meth,
      headers = [(''Authorization'', token), (''Content-Type'', ''application/json'')],
      body = (if truthy env payload then Some (JSON_stringify env payload) else None)\<rparr>"

text \<open>
  Lines 34 to 46: \<^verbatim>\<open>apiCall\<close> after the await of \<^verbatim>\<open>fetch\<close>.  A rejected \<^verbatim>\<open>fetch\<close>
  throws; the answer counts as handled when its body has been read.
\<close>

definition call_result :: "('n, 'w) env \<Rightarrow> js_error + response \<Rightarrow> js_error + 'n jsval" where
  "call_result env r = (case r of Inl e \<Rightarrow> Inl e | Inr res \<Rightarrow> apiCall_response env res)"

text \<open>
  \<^verbatim>\<open>loadTasks\<close>: the call of \<^verbatim>\<open>apiCall\<close> (line 89), and lines 89 to 101 after its
  await, on what \<^verbatim>\<open>apiCall\<close> returned or threw.
\<close>

definition load_call :: "'n thread" where
  "load_call =
     \<lparr>th_caller = Load, th_path = ''/tasks'', th_method = ''GET'', th_payload = JNull,
      th_phase = AwaitSession\<rparr>"

definition loadTasks_resume ::
  "('n, 'w) env \<Rightarrow> js_error + 'n jsval \<Rightarrow> 'n app \<Rightarrow> 'n app" where
  "loadTasks_resume env result st =
     (case result of
        Inl err \<Rightarrow> st\<lparr>error := Some (err_text err), loading := False\<rparr>
      | Inr items \<Rightarrow>
          (case normalizedItems env items of
             Inl err \<Rightarrow> st\<lparr>error := Some (err_text err), loading := False\<rparr>
           | Inr ts \<Rightarrow> st\<lparr>tasks := ts, loading := False\<rparr>))"

text \<open>A new call starts to wait; a call ends; a mutation goes on to \<^verbatim>\<open>loadTasks\<close>.\<close>

definition spawn :: "'n thread \<Rightarrow> 'n config \<Rightarrow> 'n config" where
  "spawn t c = c\<lparr>threads := threads c @ [t]\<rparr>"

definition finish :: "nat \<Rightarrow> 'n config \<Rightarrow> 'n config" where
  "finish i c = c\<lparr>threads := (threads c)[i := (threads c ! i)\<lparr>th_phase := Finished\<rparr>]\<rparr>"

definition reload :: "nat \<Rightarrow> 'n config \<Rightarrow> 'n config" where
  "reload i c = c\<lparr>app := loadTasks_start (app c), threads := (threads c)[i := load_call]\<rparr>"

text \<open>
  The caller of \<^verbatim>\<open>apiCall\<close> after its await: \<^verbatim>\<open>loadTasks\<close> (lines 89 to 101),
  \<^verbatim>\<open>createTask\<close> (lines 117 to 122), \<^verbatim>\<open>updateTask\<close> (lines 135 to 141) and
  \<^verbatim>\<open>removeTask\<close> (lines 147 to 151).
\<close>

definition resume ::
  "('n, 'w) env \<Rightarrow> nat \<Rightarrow> js_error + 'n jsval \<Rightarrow> 'n config \<Rightarrow> 'n config" where
  "resume env i result c =
     (case th_caller (threads c ! i) of
        Load \<Rightarrow> finish i (c\<lparr>app := loadTasks_resume env result (app c)\<rparr>)
      | Create \<Rightarrow>
          (case result of
             Inl err \<Rightarrow> finish i (c\<lparr>app := (app c)\<lparr>error := Some (err_text err)\<rparr>\<rparr>)
           | Inr r \<Rightarrow> reload i (c\<lparr>app := (app c)\<lparr>form := emptyTask\<rparr>\<rparr>))
      | Update \<Rightarrow>
          (case result of
             Inl err \<Rightarrow> finish i (c\<lparr>app := (app c)\<lparr>error := Some (err_text err)\<rparr>\<rparr>)
           | Inr r \<Rightarrow> reload i (c\<lparr>app := (app c)\<lparr>editing := JNull, form := emptyTask\<rparr>\<rparr>))
      | Remove \<Rightarrow>
          (case result of
             Inl err \<Rightarrow> finish i (c\<lparr>app := (app c)\<lparr>error := Some (err_text err)\<rparr>\<rparr>)
           | Inr r \<Rightarrow> reload i c))"

text \<open>
  The operations up to their first await: \<^verbatim>\<open>loadTasks\<close> (lines 86 to 89),
  \<^verbatim>\<open>createTask\<close> (lines 110 to 117), \<^verbatim>\<open>updateTask\<close> (lines 126 to 135) and
  \<^verbatim>\<open>removeTask\<close> (lines 145 to 147).
\<close>

definition begin_load :: "'n config \<Rightarrow> 'n config" where
  "begin_load c = spawn load_call (c\<lparr>app := loadTasks_start (app c)\<rparr>)"

definition begin_create :: "('n, 'w) env \<Rightarrow> 'n config \<Rightarrow> 'n config" where
  "begin_create env c =
     (let st1 = (app c)\<lparr>error := None\<rparr> in
      case create_payload env (form (app c)) of
        Inl err \<Rightarrow> c\<lparr>app := st1\<lparr>error := Some (err_text err)\<rparr>\<rparr>
      | Inr p \<Rightarrow>
          spawn \<lparr>th_caller = Create, th_path = ''/tasks'', th_method = ''POST'',
                 th_payload = JObj p, th_phase = AwaitSession\<rparr>
            (c\<lparr>app := st1\<rparr>))"

definition begin_update ::
  "('n, 'w) env \<Rightarrow> 'n jsval \<Rightarrow> 'n obj \<Rightarrow> 'n config \<Rightarrow> 'n config" where
  "begin_update env taskId patch c =
     (let st1 = (app c)\<lparr>error := None\<rparr> in
      case update_body env taskId patch of
        Inl err \<Rightarrow> c\<lparr>app := st1\<lparr>error := Some (err_text err)\<rparr>\<rparr>
      | Inr b \<Rightarrow>
          spawn \<lparr>th_caller = Update, th_path = ''/tasks/'' @ to_string env taskId,
                 th_method = ''PUT'', th_payload = JObj b, th_phase = AwaitSession\<rparr>
            (c\<lparr>app := st1\<rparr>))"

definition begin_remove :: "('n, 'w) env \<Rightarrow> 'n jsval \<Rightarrow> 'n config \<Rightarrow> 'n config" where
  "begin_remove env taskId c =
     spawn \<lparr>th_caller = Remove, th_path = ''/tasks/'' @ to_string env taskId,
            th_method = ''DELETE'', th_payload = JNull, th_phase = AwaitSession\<rparr>
       (c\<lparr>app := (app c)\<lparr>error := None\<rparr>\<rparr>)"

text \<open>
  An event is an action of the user, the answer of the session provider to the
  thread \<open>i\<close>, or the answer of \<^verbatim>\<open>fetch\<close> to the thread \<open>i\<close>.  An answer to a thread
  that does not wait for it changes nothing.
\<close>

datatype 'n event =
    User "'n action"
  | SessionAnswer nat "js_error + id_token option"
  | FetchAnswer nat "js_error + response"

fun user :: "('n, 'w) env \<Rightarrow> 'n config \<Rightarrow> 'n action \<Rightarrow> 'n config" where
  "user env c Refresh = begin_load c"
| "user env c Submit =
     (if truthy env (editing (app c)) then begin_update env (editing (app c)) (form (app c)) c
      else begin_create env c)"
| "user env c (ToggleComplete t) = begin_update env (get t ''taskId'') (toggle_patch t) c"
| "user env c (BeginEdit t) = c\<lparr>app := edit_click env t (app c)\<rparr>"
| "user env c CancelEdit = c\<lparr>app := cancel_click (app c)\<rparr>"
| "user env c (Delete t confirmed) = (if confirmed then begin_remove env (get t ''taskId'') c else c)"
| "user env c (FilterChange f) = c\<lparr>app := filter_change f (app c)\<rparr>"
| "user env c (FieldChange k v) = c\<lparr>app := field_change k v (app c)\<rparr>"

fun handle :: "('n, 'w) env \<Rightarrow> 'n config \<Rightarrow> 'n event \<Rightarrow> 'n config" where
  "handle env c (User a) = user env c a"
| "handle env c (SessionAnswer i r) =
     (if i < length (threads c) \<and> th_phase (threads c ! i) = AwaitSession then
        (case session_token r of
           Inl e \<Rightarrow> resume env i (Inl e) c
         | Inr token \<Rightarrow>
             (let t = threads c ! i;
                  req = api_request env (th_path t) (th_method t) (th_payload t) token
              in c\<lparr>threads := (threads c)[i := t\<lparr>th_phase := AwaitResponse (length (calls c)) req\<rparr>],
                   calls := calls c @ [(req, None)]\<rparr>))
      else c)"
| "handle env c (FetchAnswer i r) =
     (if i < length (threads c) then
        (case th_phase (threads c ! i) of
           AwaitResponse k req \<Rightarrow>
             resume env i (call_result env r)
               (c\<lparr>calls := (calls c)[k := (req, Some r)], handled := handled c @ [(req, r)]\<rparr>)
         | _ \<Rightarrow> c)
      else c)"

text \<open>
  The page from its first render: the effect of lines 104 to 106 calls \<^verbatim>\<open>loadTasks\<close>,
  then the events come in any order.
\<close>

definition start :: "'n config" where
  "start = begin_load \<lparr>app = initial_app, threads = [], calls = [], handled = []\<rparr>"

definition exec :: "('n, 'w) env \<Rightarrow> 'n event list \<Rightarrow> 'n config" where
  "exec env evs = foldl (handle env) start evs"

section \<open>A concrete environment\<close>

text \<open>
  The examples below run the client in one fixed environment: Number values are
  integers, the outside world holds the session's token and the replies the server
  will give, in order.
\<close>

record demo_world =
  session :: "id_token option"
  replies :: "(js_error + response) list"

definition demo_fetch :: "demo_world \<Rightarrow> request \<Rightarrow> (js_error + response) \<times> demo_world" where
  "demo_fetch w req =
     (case replies w of
        [] \<Rightarrow> (Inl (Error ''Failed to fetch''), w)
      | r # rs \<Rightarrow> (r, w\<lparr>replies := rs\<rparr>))"

definition int_string :: "int \<Rightarrow> string" where
  "int_string n = (if n < 0 then CHR ''-'' # dec (nat (- n)) else dec (nat n))"

text \<open>\<^verbatim>\<open>JSON.stringify\<close> on values without control characters in their strings.\<close>

definition quote :: "string \<Rightarrow> string" where
  "quote s =
     CHR 0x22 # concat (map (\<lambda>c. if c = CHR 0x22 \<or> c = CHR 0x5C then [CHR 0x5C, c] else [c]) s)
       @ [CHR 0x22]"

fun stringify :: "int jsval \<Rightarrow> string"
  and stringify_elems :: "int jsval list \<Rightarrow> string list"
  and stringify_props :: "(string \<times> int jsval) list \<Rightarrow> string list" where
  "stringify JUndefined = ''null''"
| "stringify JNull = ''null''"
| "stringify (JBool b) = (if b then ''true'' else ''false'')"
| "stringify (JNum n) = int_string n"
| "stringify (JStr s) = quote s"
| "stringify (JArr xs) = ''['' @ join_comma (stringify_elems xs) @ '']''"
| "stringify (JObj kvs) = ''{'' @ join_comma (stringify_props kvs) @ ''}''"
| "stringify_elems [] = []"
| "stringify_elems (x # xs) = stringify x # stringify_elems xs"
| "stringify_props [] = []"
| "stringify_props ((k, v) # kvs) =
     (if v = JUndefined then stringify_props kvs
      else (quote k @ '':'' @ stringify v) # stringify_props kvs)"

text \<open>The documents of the examples; \<open>demo_parse\<close> reads these and rejects any other text.\<close>

definition milk_task :: "int obj" where
  "milk_task =
     [(''taskId'', JStr ''t1''), (''title'', JStr ''Buy milk''), (''description'', JStr ''2 l''),
      (''status'', JStr ''Pending''), (''deadline'', JStr ''2024-03-31T01:30:00.000Z'')]"

definition done_task :: "int obj" where
  "done_task = [(''taskId'', JNum 1), (''status'', JStr ''Completed''), (''deadline'', JNull)]"

definition bad_task :: "int obj" where
  "bad_task = [(''taskId'', JStr ''t2''), (''title'', JStr ''Pay rent''), (''deadline'', JStr ''not-a-date'')]"

text \<open>
  A task whose deadline the server sent as a date only, and the same task after the
  normalization.
\<close>

definition tax_task :: "int obj" where
  "tax_task =
     [(''taskId'', JStr ''t3''), (''title'', JStr ''File taxes''),
      (''deadline'', JStr ''2024-03-31'')]"

definition tax_task_iso :: "int obj" where
  "tax_task_iso =
     [(''taskId'', JStr ''t3''), (''title'', JStr ''File taxes''),
      (''deadline'', JStr ''2024-03-31T00:00:00.000Z'')]"

definition forbidden_doc :: "int jsval" where
  "forbidden_doc = JObj [(''message'', JStr ''forbidden'')]"

definition demo_documents :: "int jsval list" where
  "demo_documents =
     [forbidden_doc,
      JArr [],
      JArr [JObj milk_task],
      JArr [JObj done_task],
      JArr [JObj milk_task, JObj bad_task],
      JObj milk_task,
      JArr [JObj tax_task]]"

definition demo_parse :: "string \<Rightarrow> js_error + int jsval" where
  "demo_parse s =
     (case find (\<lambda>v. stringify v = s) demo_documents of
        Some v \<Rightarrow> Inr v
      | None \<Rightarrow> Inl (Error ''Unexpected token''))"

text \<open>
  The time zone of \<open>demo_env\<close> is UTC+1 until 2024-03-31T01:00:00Z and UTC+2 from then
  on (the start of summer time in central Europe); local times skipped by the change
  are read with the offset before it.
\<close>

definition demo_LocalTZA :: "int \<Rightarrow> bool \<Rightarrow> int" where
  "demo_LocalTZA t isUTC =
     (if isUTC then (if t < 1711846800000 then 3600000 else 7200000)
      else (if t < 1711846800000 + 7200000 then 3600000 else 7200000))"

definition demo_env :: "(int, demo_world) env" where
  "demo_env =
     \<lparr>num_truthy = (\<lambda>n. n \<noteq> 0),
      num_to_string = int_string,
      num_time = Some,
      LocalTZA = demo_LocalTZA,
      legacy_date_parse = (\<lambda>s. None),
      invalid_time_message = ''Invalid time value'',
      null_member_message = (\<lambda>k. ''Cannot read properties of null (reading '' @ k @ '')''),
      JSON_parse = demo_parse,
      JSON_stringify = stringify,
      fetchAuthSession = (\<lambda>w. (Inr (session w), w)),
      fetch = demo_fetch\<rparr>"

text \<open>
  The same environment on a host whose zone is at local mean time: Berlin before
  April 1893, 53 minutes and 28 seconds east of Greenwich.
\<close>

definition lmt_env :: "(int, demo_world) env" where
  "lmt_env = demo_env\<lparr>LocalTZA := (\<lambda>t isUTC. 3208000)\<rparr>"

definition reply :: "nat \<Rightarrow> string \<Rightarrow> string \<Rightarrow> js_error + response" where
  "reply code reason txt = Inr \<lparr>status = code, statusText = reason, text_body = txt\<rparr>"

definition signed_in :: "(js_error + response) list \<Rightarrow> demo_world" where
  "signed_in rs = \<lparr>session = Some (TokenObject ''jwt''), replies = rs\<rparr>"

definition milk_world :: demo_world where
  "milk_world =
     signed_in [reply 200 ''OK'' (stringify (JArr [JObj milk_task])), reply 200 ''OK'' [],
                reply 200 ''OK'' (stringify (JArr [JObj done_task]))]"

definition done_world :: demo_world where
  "done_world =
     signed_in [reply 200 ''OK'' (stringify (JArr [JObj done_task])), reply 200 ''OK'' [],
                reply 200 ''OK'' (stringify (JArr [JObj milk_task]))]"

definition bad_world :: demo_world where
  "bad_world = signed_in [reply 200 ''OK'' (stringify (JArr [JObj milk_task, JObj bad_task]))]"

definition signed_out :: "(js_error + response) list \<Rightarrow> demo_world" where
  "signed_out rs = \<lparr>session = None, replies = rs\<rparr>"

text \<open>
  Two refreshes in flight at once: the page loads the list when it is mounted, the
  user presses Refresh before the answer is there, both calls get their token, and
  the server's answer to the second request arrives before its answer to the first.
\<close>

definition jwt :: "js_error + id_token option" where
  "jwt = Inr (Some (TokenObject ''jwt''))"

definition overlapping_refreshes :: "int event list" where
  "overlapping_refreshes =
     [User Refresh, SessionAnswer 0 jwt, SessionAnswer 1 jwt,
      FetchAnswer 1 (reply 200 ''OK'' (stringify (JArr [JObj done_task]))),
      FetchAnswer 0 (reply 200 ''OK'' (stringify (JArr [JObj milk_task])))]"

text \<open>
  The page after a first load that failed, and the page after a first load that
  succeeded and a second one that waits for its response.
\<close>

definition failed_refresh :: "int config" where
  "failed_refresh =
     exec demo_env [SessionAnswer 0 jwt, FetchAnswer 0 (Inl (Error ''Failed to fetch''))]"

definition waiting_refresh :: "int config" where
  "waiting_refresh =
     exec demo_env
       [SessionAnswer 0 jwt, FetchAnswer 0 (reply 200 ''OK'' (stringify (JArr [JObj milk_task]))),
        User Refresh, SessionAnswer 1 jwt]"

section \<open>Notions of the specification\<close>

text \<open>
  The status of a task as the specification reads it: \<open>Pending\<close> when the property is
  absent or falsy.
\<close>

definition effective_status :: "('n, 'w) env \<Rightarrow> 'n obj \<Rightarrow> 'n jsval" where
  "effective_status env t =
     (case map_of t ''status'' of
        None \<Rightarrow> JStr ''Pending''
      | Some v \<Rightarrow> if truthy env v then v else JStr ''Pending'')"

text \<open>
  A successful list fetch, read off the network log: a GET of \<^verbatim>\<open>/tasks\<close> that was
  answered, whose answer \<^verbatim>\<open>apiCall\<close> returned and the normalization accepted.  Its
  result is the normalized list.  \<open>last_listing\<close> is the result of the last one, and
  the empty collection of the initial state before the first.
\<close>

definition listing_of ::
  "('n, 'w) env \<Rightarrow> request \<times> (js_error + response) \<Rightarrow> 'n obj list option" where
  "listing_of env e =
     (case snd e of
        Inl err \<Rightarrow> None
      | Inr res \<Rightarrow>
          if http_method (fst e) = ''GET'' \<and> url (fst e) = API_URL @ ''/tasks'' then
            (case apiCall_response env res of
               Inl err \<Rightarrow> None
             | Inr items \<Rightarrow>
                 (case normalizedItems env items of Inl err \<Rightarrow> None | Inr ts \<Rightarrow> Some ts))
          else None)"

definition last_listing ::
  "('n, 'w) env \<Rightarrow> (request \<times> (js_error + response)) list \<Rightarrow> 'n obj list" where
  "last_listing env log =
     foldl (\<lambda>acc e. case listing_of env e of Some ts \<Rightarrow> ts | None \<Rightarrow> acc) [] log"

text \<open>
  The same by the order of the calls: the answered requests of a configuration, in
  the order in which they were handed to \<^verbatim>\<open>fetch\<close>.
\<close>

definition answered ::
  "(request \<times> (js_error + response) option) list \<Rightarrow> (request \<times> (js_error + response)) list" where
  "answered log = concat (map (\<lambda>e. case snd e of None \<Rightarrow> [] | Some r \<Rightarrow> [(fst e, r)]) log)"

text \<open>
  What a refresh shows of a failure: its body if it has one, else its message.
\<close>

definition failure_text :: "js_error \<Rightarrow> string" where
  "failure_text e = (case err_body e of Some b \<Rightarrow> b | None \<Rightarrow> message e)"

text \<open>
  The date-normalized fetched list.  The fetched list is the answer when it is an
  array, and empty otherwise.  A fetched task can be normalized when it is not
  \<^verbatim>\<open>null\<close> and its deadline is absent, falsy, or a date that \<^verbatim>\<open>new Date\<close> reads.  The
  normalized task has the properties of the fetched one, except for the deadline:
  that is \<^verbatim>\<open>null\<close> when the fetched deadline is absent or falsy, and otherwise the
  ISO-8601 string of the time that the fetched deadline denotes.
\<close>

definition fetched_list :: "'n jsval \<Rightarrow> 'n jsval list" where
  "fetched_list items = (case items of JArr xs \<Rightarrow> xs | _ \<Rightarrow> [])"

definition fetched_deadline :: "'n jsval \<Rightarrow> 'n jsval" where
  "fetched_deadline item = (case item of JObj kvs \<Rightarrow> get kvs ''deadline'' | _ \<Rightarrow> JUndefined)"

definition normalizable :: "('n, 'w) env \<Rightarrow> 'n jsval \<Rightarrow> bool" where
  "normalizable env item =
     (item \<noteq> JNull \<and> item \<noteq> JUndefined
      \<and> (truthy env (fetched_deadline item) \<longrightarrow> Date_new env (fetched_deadline item) \<noteq> None))"

definition other_properties :: "'n obj \<Rightarrow> 'n obj" where
  "other_properties kvs = filter (\<lambda>kv. fst kv \<noteq> ''deadline'') kvs"

definition date_normalized :: "('n, 'w) env \<Rightarrow> 'n jsval \<Rightarrow> 'n obj \<Rightarrow> bool" where
  "date_normalized env item t =
     (other_properties t = other_properties (spread item)
      \<and> (if truthy env (fetched_deadline item) then
           (case Date_new env (fetched_deadline item) of
              None \<Rightarrow> False
            | Some u \<Rightarrow> get t ''deadline'' = JStr (iso_string u))
         else get t ''deadline'' = JNull))"

text \<open>
  What holds of every thread of an execution: \<^verbatim>\<open>loadTasks\<close> calls GET \<^verbatim>\<open>/tasks\<close>, the
  other callers use another method, and a request is made for the path and with the
  method of its call.
\<close>

definition thread_ok :: "'n thread \<Rightarrow> bool" where
  "thread_ok t =
     ((if th_caller t = Load then th_path t = ''/tasks'' \<and> th_method t = ''GET''
       else th_method t \<noteq> ''GET'')
      \<and> (case th_phase t of
            AwaitResponse k req \<Rightarrow> url req = API_URL @ th_path t \<and> http_method req = th_method t
          | _ \<Rightarrow> True))"

text \<open>
  The strings of a \<^verbatim>\<open>datetime-local\<close> input, \<^verbatim>\<open>YYYY-MM-DDTHH:mm\<close>: the string of
  five fields, the fields that make a valid one, and the time value of the fields
  read as if they were UTC.
\<close>

definition local_string :: "nat \<Rightarrow> nat \<Rightarrow> nat \<Rightarrow> nat \<Rightarrow> nat \<Rightarrow> string" where
  "local_string Y M D h mi =
     digits 4 Y @ ''-'' @ digits 2 M @ ''-'' @ digits 2 D @ ''T'' @ digits 2 h @ '':'' @ digits 2 mi"

definition valid_local :: "nat \<Rightarrow> nat \<Rightarrow> nat \<Rightarrow> nat \<Rightarrow> nat \<Rightarrow> bool" where
  "valid_local Y M D h mi =
     (Y \<le> 9999 \<and> 1 \<le> M \<and> M \<le> 12 \<and> 1 \<le> D \<and> D \<le> DaysInMonth (int Y) M \<and> h < 24 \<and> mi < 60)"

definition local_time_value :: "nat \<Rightarrow> nat \<Rightarrow> nat \<Rightarrow> nat \<Rightarrow> nat \<Rightarrow> int" where
  "local_time_value Y M D h mi =
     MakeDate (MakeDay (int Y) (int M - 1) (int D)) (MakeTime (int h) (int mi) 0 0)"

text \<open>
  The same on strings: \<open>s\<close> is a valid local string when it is read as a date-time
  and is the \<^verbatim>\<open>YYYY-MM-DDTHH:mm\<close> rendering of valid fields; \<open>string_local_time\<close> is
  the time value of its fields.
\<close>

definition is_local_string :: "string \<Rightarrow> bool" where
  "is_local_string s =
     (case parse_iso s of
        None \<Rightarrow> False
      | Some f \<Rightarrow>
          0 \<le> f_year f
          \<and> valid_local (nat (f_year f)) (f_month f) (f_day f) (f_hour f) (f_minute f)
          \<and> s = local_string (nat (f_year f)) (f_month f) (f_day f) (f_hour f) (f_minute f))"

definition string_local_time :: "string \<Rightarrow> int" where
  "string_local_time s =
     (case parse_iso s of
        None \<Rightarrow> 0
      | Some f \<Rightarrow>
          local_time_value (nat (f_year f)) (f_month f) (f_day f) (f_hour f) (f_minute f))"

text \<open>
  A local time \<open>t\<close> exists in the host's time zone when the offset in force at the
  instant it denotes is the offset it was read with (it is not skipped by a clock
  change).  The offset is a whole number of minutes when it is a multiple of
  \<open>msPerMinute\<close>.  Offsets are at most a day.
\<close>

definition offset_stable :: "('n, 'w) env \<Rightarrow> int \<Rightarrow> bool" where
  "offset_stable env t =
     (LocalTZA env (UTC env t) True = LocalTZA env t False
      \<and> \<bar>LocalTZA env t False\<bar> \<le> msPerDay)"

definition whole_minutes :: "('n, 'w) env \<Rightarrow> int \<Rightarrow> bool" where
  "whole_minutes env t = (LocalTZA env t False mod msPerMinute = 0)"

text \<open>Editable to wire and back: \<^verbatim>\<open>formatDateForInput(parseDateForAPI(s))\<close>.\<close>

definition round_trip :: "('n, 'w) env \<Rightarrow> string \<Rightarrow> js_error + 'n jsval" where
  "round_trip env s =
     (case parseDateForAPI env (JStr s) of
        Inl e \<Rightarrow> Inl e
      | Inr wire \<Rightarrow> formatDateForInput env wire)"

text \<open>
  A configuration in which no call waits, set against a run of the functions that
  run every call to its end: the same state of the component, the same answered
  requests, handled in the order of the calls.
\<close>

definition settled :: "'n config \<Rightarrow> 'n app \<times> 'w sys \<Rightarrow> bool" where
  "settled c p =
     (app c = fst p \<and> handled c = netlog (snd p)
      \<and> calls c = map (\<lambda>e. (fst e, Some (snd e))) (netlog (snd p))
      \<and> list_all (\<lambda>t. th_phase t = Finished) (threads c))"

section \<open>The collection mirrors the last list fetch\<close>

lemma toISOString_Some: "toISOString env (Some t) = Inr (iso_string t)"
  by (simp add: toISOString_def)

lemma parseDateForAPI_total:
  "parseDateForAPI env v =
     Inr (if \<not> truthy env v then JNull
          else case Date_new env v of None \<Rightarrow> JNull | Some t \<Rightarrow> JStr (iso_string t))"
  by (simp add: parseDateForAPI_def toISOString_Some split: option.splits)

lemma create_payload_total: "\<exists>p. create_payload env frm = Inr p"
  by (simp add: create_payload_def parseDateForAPI_total)

lemma update_body_total: "\<exists>b. update_body env taskId patch = Inr b"
  by (simp add: update_body_def parseDateForAPI_total)

text \<open>What a call of \<open>apiCall\<close> does to the network log.\<close>

lemma getIdToken_netlog: "getIdToken env s = (x, s1) \<Longrightarrow> netlog s1 = netlog s"
  by (auto simp: getIdToken_def split: prod.splits sum.splits if_splits option.splits id_token.splits)

lemma apiCall_log:
  assumes "apiCall env path meth payload s = (x, s')"
  shows "(netlog s' = netlog s \<and> isl x)
       \<or> (\<exists>req r. netlog s' = netlog s @ [(req, r)] \<and> http_method req = meth
              \<and> url req = API_URL @ path
              \<and> x = (case r of Inl e \<Rightarrow> Inl e | Inr res \<Rightarrow> apiCall_response env res))"
proof -
  obtain y s1 where tok: "getIdToken env s = (y, s1)"
    by (cases "getIdToken env s")
  have log1: "netlog s1 = netlog s"
    using tok by (rule getIdToken_netlog)
  show ?thesis
  proof (cases y)
    case (Inl e)
    with assms tok log1 have "netlog s' = netlog s \<and> isl x"
      by (auto simp: apiCall_def)
    then show ?thesis ..
  next
    case (Inr token)
    define req where "req = \<lparr>url = API_URL @ path, http_method = meth,
        headers = [(''Authorization'', token), (''Content-Type'', ''application/json'')],
        body = (if truthy env payload then Some (JSON_stringify env payload) else None)\<rparr>"
    obtain r w where f: "fetch env (world s1) req = (r, w)"
      by (cases "fetch env (world s1) req")
    from assms tok Inr f log1
    have "netlog s' = netlog s @ [(req, r)]"
      and "x = (case r of Inl e \<Rightarrow> Inl e | Inr res \<Rightarrow> apiCall_response env res)"
      by (auto simp: apiCall_def fetch_logged_def req_def split: sum.splits)
    moreover have "http_method req = meth" "url req = API_URL @ path"
      by (simp_all add: req_def)
    ultimately show ?thesis by blast
  qed
qed

lemma last_listing_snoc:
  "last_listing env (log @ [e]) =
     (case listing_of env e of Some ts \<Rightarrow> ts | None \<Rightarrow> last_listing env log)"
  by (simp add: last_listing_def split: option.splits)

lemma listing_of_other:
  "http_method req \<noteq> ''GET'' \<Longrightarrow> listing_of env (req, r) = None"
  by (simp add: listing_of_def split: sum.splits)

lemma loadTasks_listing:
  assumes "tasks st = last_listing env (netlog s)" and "loadTasks env (st, s) = (st', s')"
  shows "tasks st' = last_listing env (netlog s')"
proof -
  obtain x s1 where call: "apiCall env ''/tasks'' ''GET'' JNull s = (x, s1)"
    by (cases "apiCall env ''/tasks'' ''GET'' JNull s")
  from apiCall_log [OF call] show ?thesis
  proof
    assume "netlog s1 = netlog s \<and> isl x"
    with assms call show ?thesis
      by (auto simp: loadTasks_def loadTasks_start_def Let_def isl_def)
  next
    assume "\<exists>req r. netlog s1 = netlog s @ [(req, r)] \<and> http_method req = ''GET''
              \<and> url req = API_URL @ ''/tasks''
              \<and> x = (case r of Inl e \<Rightarrow> Inl e | Inr res \<Rightarrow> apiCall_response env res)"
    then obtain req r where log: "netlog s1 = netlog s @ [(req, r)]"
      and req: "http_method req = ''GET''" "url req = API_URL @ ''/tasks''"
      and x: "x = (case r of Inl e \<Rightarrow> Inl e | Inr res \<Rightarrow> apiCall_response env res)"
      by blast
    from assms call log req x show ?thesis
      by (auto simp: loadTasks_def loadTasks_start_def Let_def last_listing_snoc listing_of_def
          split: sum.splits)
  qed
qed

lemma mutation_listing:
  assumes "meth \<noteq> ''GET''" and "apiCall env path meth payload s = (x, s')"
  shows "last_listing env (netlog s') = last_listing env (netlog s)"
  using apiCall_log [OF assms(2)] assms(1)
  by (auto simp: last_listing_snoc listing_of_other)



lemma createTask_listing:
  assumes "tasks st = last_listing env (netlog s)" and "createTask env (st, s) = (st', s')"
  shows "tasks st' = last_listing env (netlog s')"
proof -
  obtain p where p: "create_payload env (form st) = Inr p"
    using create_payload_total by blast
  obtain x s1 where call: "apiCall env ''/tasks'' ''POST'' (JObj p) s = (x, s1)"
    by (cases "apiCall env ''/tasks'' ''POST'' (JObj p) s")
  have keep: "last_listing env (netlog s1) = last_listing env (netlog s)"
    using call by (rule mutation_listing [rotated]) simp
  show ?thesis
  proof (cases x)
    case (Inl e)
    with assms p call keep show ?thesis
      by (auto simp: createTask_def Let_def)
  next
    case (Inr v)
    with assms(2) p call
    have "loadTasks env (st\<lparr>error := None, form := emptyTask\<rparr>, s1) = (st', s')"
      by (simp add: createTask_def Let_def)
    moreover have "tasks (st\<lparr>error := None, form := emptyTask\<rparr>) = last_listing env (netlog s1)"
      using assms(1) keep by simp
    ultimately show ?thesis by (rule loadTasks_listing [rotated])
  qed
qed

lemma updateTask_listing:
  assumes "tasks st = last_listing env (netlog s)"
    and "updateTask env taskId patch (st, s) = (st', s')"
  shows "tasks st' = last_listing env (netlog s')"
proof -
  obtain b where b: "update_body env taskId patch = Inr b"
    using update_body_total by blast
  obtain x s1 where
    call: "apiCall env (''/tasks/'' @ to_string env taskId) ''PUT'' (JObj b) s = (x, s1)"
    by (cases "apiCall env (''/tasks/'' @ to_string env taskId) ''PUT'' (JObj b) s")
  have keep: "last_listing env (netlog s1) = last_listing env (netlog s)"
    using call by (rule mutation_listing [rotated]) simp
  show ?thesis
  proof (cases x)
    case (Inl e)
    with assms b call keep show ?thesis
      by (auto simp: updateTask_def Let_def)
  next
    case (Inr v)
    with assms(2) b call
    have "loadTasks env (st\<lparr>error := None, editing := JNull, form := emptyTask\<rparr>, s1) = (st', s')"
      by (simp add: updateTask_def Let_def)
    moreover have "tasks (st\<lparr>error := None, editing := JNull, form := emptyTask\<rparr>)
        = last_listing env (netlog s1)"
      using assms(1) keep by simp
    ultimately show ?thesis by (rule loadTasks_listing [rotated])
  qed
qed

lemma removeTask_listing:
  assumes "tasks st = last_listing env (netlog s)"
    and "removeTask env taskId (st, s) = (st', s')"
  shows "tasks st' = last_listing env (netlog s')"
proof -
  obtain x s1 where
    call: "apiCall env (''/tasks/'' @ to_string env taskId) ''DELETE'' JNull s = (x, s1)"
    by (cases "apiCall env (''/tasks/'' @ to_string env taskId) ''DELETE'' JNull s")
  have keep: "last_listing env (netlog s1) = last_listing env (netlog s)"
    using call by (rule mutation_listing [rotated]) simp
  show ?thesis
  proof (cases x)
    case (Inl e)
    with assms call keep show ?thesis
      by (auto simp: removeTask_def Let_def)
  next
    case (Inr v)
    with assms(2) call
    have "loadTasks env (st\<lparr>error := None\<rparr>, s1) = (st', s')"
      by (simp add: removeTask_def Let_def)
    moreover have "tasks (st\<lparr>error := None\<rparr>) = last_listing env (netlog s1)"
      using assms(1) keep by simp
    ultimately show ?thesis by (rule loadTasks_listing [rotated])
  qed
qed

lemma edit_click_tasks: "tasks (edit_click env t st) = tasks st"
  by (simp add: edit_click_def Let_def split: sum.splits)

lemma step_listing:
  assumes "tasks (fst c) = last_listing env (netlog (snd c))"
  shows "tasks (fst (step env c a)) = last_listing env (netlog (snd (step env c a)))"
proof -
  obtain st s where c: "c = (st, s)" by (cases c)
  have inv: "tasks st = last_listing env (netlog s)" using assms c by simp
  show ?thesis
  proof (cases a)
    case Refresh
    then show ?thesis
      using loadTasks_listing [OF inv, of "fst (loadTasks env (st, s))" "snd (loadTasks env (st, s))"] c
      by simp
  next
    case Submit
    show ?thesis
    proof (cases "truthy env (editing st)")
      case True
      then show ?thesis
        using updateTask_listing [OF inv, of "editing st" "form st"
            "fst (updateTask env (editing st) (form st) (st, s))"
            "snd (updateTask env (editing st) (form st) (st, s))"] c Submit
        by (simp add: submit_def)
    next
      case False
      then show ?thesis
        using createTask_listing [OF inv, of "fst (createTask env (st, s))"
            "snd (createTask env (st, s))"] c Submit
        by (simp add: submit_def)
    qed
  next
    case (ToggleComplete t)
    then show ?thesis
      using updateTask_listing [OF inv, of "get t ''taskId''" "toggle_patch t"
          "fst (toggle_click env t (st, s))" "snd (toggle_click env t (st, s))"] c
      by (simp add: toggle_click_def)
  next
    case (BeginEdit t)
    then show ?thesis using inv c by (simp add: edit_click_tasks)
  next
    case CancelEdit
    then show ?thesis using inv c by (simp add: cancel_click_def)
  next
    case (Delete t confirmed)
    then show ?thesis
      using removeTask_listing [OF inv, of "get t ''taskId''"
          "fst (removeTask env (get t ''taskId'') (st, s))"
          "snd (removeTask env (get t ''taskId'') (st, s))"] c inv
      by (simp add: delete_click_def)
  next
    case (FilterChange f)
    then show ?thesis using inv c by (simp add: filter_change_def)
  next
    case (FieldChange k v)
    then show ?thesis using inv c by (simp add: field_change_def)
  qed
qed

lemma mount_listing:
  "tasks (fst (mount env w)) = last_listing env (netlog (snd (mount env w)))"
  using loadTasks_listing [of initial_app env "\<lparr>world = w, netlog = []\<rparr>"
      "fst (mount env w)" "snd (mount env w)"]
  by (simp add: mount_def initial_app_def last_listing_def)

lemma foldl_step_listing:
  "tasks (fst c) = last_listing env (netlog (snd c)) \<Longrightarrow>
   tasks (fst (foldl (step env) c acts)) = last_listing env (netlog (snd (foldl (step env) c acts)))"
  by (induction acts arbitrary: c) (simp_all add: step_listing)

lemma run_mirror:
  "tasks (fst (run env w acts)) = last_listing env (netlog (snd (run env w acts)))"
  unfolding run_def by (rule foldl_step_listing) (rule mount_listing)
section \<open>The visible tasks\<close>

lemma js_or_status: "js_or env (get t ''status'') (JStr ''Pending'') = effective_status env t"
  by (simp add: js_or_def get_def effective_status_def split: option.splits)

text \<open>
  Claim C4.  With the filter \<open>All\<close> the visible list is the collection itself;
  with any other filter \<open>f\<close> it is exactly the tasks of the collection, in their
  order, whose status (read as \<open>Pending\<close> when absent or falsy) is \<open>f\<close>.  It is
  a function of the component's state alone.
\<close>

theorem visibleTasks_projection:
  "visibleTasks env st =
     (if filter_st st = ''All'' then tasks st
      else filter (\<lambda>t. effective_status env t = JStr (filter_st st)) (tasks st))"
  by (simp add: visibleTasks_def js_or_status)

theorem visibleTasks_projection_witness:
  "visibleTasks demo_env (initial_app\<lparr>tasks := [done_task]\<rparr>) = []
   \<and> visibleTasks demo_env (initial_app\<lparr>tasks := [done_task], filter_st := ''All''\<rparr>) = [done_task]
   \<and> visibleTasks demo_env (initial_app\<lparr>tasks := [done_task, [(''taskId'', JNum 2)]]\<rparr>)
       = [[(''taskId'', JNum 2)]]"
  using visibleTasks_projection [of demo_env "initial_app\<lparr>tasks := [done_task]\<rparr>"]
    visibleTasks_projection [of demo_env "initial_app\<lparr>tasks := [done_task], filter_st := ''All''\<rparr>"]
    visibleTasks_projection [of demo_env "initial_app\<lparr>tasks := [done_task, [(''taskId'', JNum 2)]]\<rparr>"]
  by (simp add: initial_app_def done_task_def effective_status_def)

section \<open>The response contract of \<^verbatim>\<open>apiCall\<close>\<close>

text \<open>
  Claim C1, as the code has it.  When a token is available and \<^verbatim>\<open>fetch\<close> delivers
  a response: a status outside 200 to 299 makes the call fail with an error carrying
  the status and, as body, the stringified parsed body when the body is valid JSON and
  the text \<open>status statusText\<close> otherwise; a 2xx response with an empty body gives
  \<^verbatim>\<open>null\<close>; a 2xx response with a non-empty body gives the parsed body when it is
  valid JSON, and makes the call fail with the parser's error when it is not.
\<close>

theorem apiCall_response_contract:
  assumes "getIdToken env s = (Inr token, s1)"
    and "fetch env (world s1)
           \<lparr>url = API_URL @ path, http_method = meth,
            headers = [(''Authorization'', token), (''Content-Type'', ''application/json'')],
            body = (if truthy env payload then Some (JSON_stringify env payload) else None)\<rparr>
         = (Inr res, w)"
  shows "fst (apiCall env path meth payload s) =
     (if status res < 200 \<or> 299 < status res then
        Inl \<lparr>message = ''API error'', err_status = Some (status res),
             err_body = Some (case JSON_parse env (text_body res) of
                                Inr json \<Rightarrow> JSON_stringify env json
                              | Inl e \<Rightarrow> dec (status res) @ '' '' @ statusText res)\<rparr>
      else if text_body res = [] then Inr JNull
      else case JSON_parse env (text_body res) of
             Inr json \<Rightarrow> Inr json
           | Inl e \<Rightarrow> Inl e)"
  using assms
  by (auto simp: apiCall_def fetch_logged_def apiCall_response_def ok_def split: sum.splits)

lemma demo_env_fields:
  "num_truthy demo_env = (\<lambda>n. n \<noteq> 0)"
  "num_to_string demo_env = int_string"
  "num_time demo_env = Some"
  "LocalTZA demo_env = demo_LocalTZA"
  "legacy_date_parse demo_env = (\<lambda>s. None)"
  "invalid_time_message demo_env = ''Invalid time value''"
  "JSON_parse demo_env = demo_parse"
  "JSON_stringify demo_env = stringify"
  "fetchAuthSession demo_env = (\<lambda>w. (Inr (session w), w))"
  "fetch demo_env = demo_fetch"
  by (simp_all add: demo_env_def)

lemma demo_getIdToken:
  "getIdToken demo_env \<lparr>world = signed_in rs, netlog = l\<rparr>
     = (Inr ''jwt'', \<lparr>world = signed_in rs, netlog = l\<rparr>)"
  by (simp add: getIdToken_def demo_env_fields signed_in_def token_truthy_def)

lemma demo_fetch_reply: "demo_fetch (signed_in (r # rs)) req = (r, signed_in rs)"
  by (simp add: demo_fetch_def signed_in_def)

lemma demo_parse_forbidden: "demo_parse (stringify forbidden_doc) = Inr forbidden_doc"
  by code_simp

lemma demo_parse_html: "demo_parse ''<html>'' = Inl (Error ''Unexpected token'')"
  by code_simp

lemma demo_parse_empty_list: "demo_parse ''[]'' = Inr (JArr [])"
  by code_simp

lemma dec_500: "dec 500 = ''500''"
  by code_simp

theorem apiCall_response_contract_witness:
  "fst (apiCall demo_env ''/tasks'' ''GET'' JNull
          \<lparr>world = signed_in [reply 403 ''Forbidden'' (stringify forbidden_doc)], netlog = []\<rparr>)
     = Inl \<lparr>message = ''API error'', err_status = Some 403,
            err_body = Some (stringify forbidden_doc)\<rparr>
   \<and> fst (apiCall demo_env ''/tasks'' ''GET'' JNull
          \<lparr>world = signed_in [reply 500 ''Internal Server Error'' ''<html>''], netlog = []\<rparr>)
     = Inl \<lparr>message = ''API error'', err_status = Some 500,
            err_body = Some ''500 Internal Server Error''\<rparr>
   \<and> fst (apiCall demo_env ''/tasks/t1'' ''DELETE'' JNull
          \<lparr>world = signed_in [reply 204 ''No Content'' []], netlog = []\<rparr>)
     = Inr JNull
   \<and> fst (apiCall demo_env ''/tasks'' ''GET'' JNull
          \<lparr>world = signed_in [reply 200 ''OK'' ''[]''], netlog = []\<rparr>)
     = Inr (JArr [])
   \<and> fst (apiCall demo_env ''/tasks'' ''GET'' JNull
          \<lparr>world = signed_in [reply 200 ''OK'' ''<html>''], netlog = []\<rparr>)
     = Inl (Error ''Unexpected token'')"
proof -
  note ev = demo_fetch_reply reply_def demo_env_fields demo_parse_forbidden demo_parse_html
    demo_parse_empty_list dec_500
  have "fst (apiCall demo_env ''/tasks'' ''GET'' JNull
          \<lparr>world = signed_in [reply 403 ''Forbidden'' (stringify forbidden_doc)], netlog = []\<rparr>)
     = Inl \<lparr>message = ''API error'', err_status = Some 403,
            err_body = Some (stringify forbidden_doc)\<rparr>"
    using apiCall_response_contract [OF demo_getIdToken,
      of "[reply 403 ''Forbidden'' (stringify forbidden_doc)]" "[]" "''/tasks''" "''GET''" JNull
         "\<lparr>status = 403, statusText = ''Forbidden'', text_body = stringify forbidden_doc\<rparr>"
         "signed_in []"]
    by (simp add: ev)
  moreover have "fst (apiCall demo_env ''/tasks'' ''GET'' JNull
          \<lparr>world = signed_in [reply 500 ''Internal Server Error'' ''<html>''], netlog = []\<rparr>)
     = Inl \<lparr>message = ''API error'', err_status = Some 500,
            err_body = Some ''500 Internal Server Error''\<rparr>"
    using apiCall_response_contract [OF demo_getIdToken,
      of "[reply 500 ''Internal Server Error'' ''<html>'']" "[]" "''/tasks''" "''GET''" JNull
         "\<lparr>status = 500, statusText = ''Internal Server Error'', text_body = ''<html>''\<rparr>"
         "signed_in []"]
    by (simp add: ev)
  moreover have "fst (apiCall demo_env ''/tasks/t1'' ''DELETE'' JNull
          \<lparr>world = signed_in [reply 204 ''No Content'' []], netlog = []\<rparr>)
     = Inr JNull"
    using apiCall_response_contract [OF demo_getIdToken,
      of "[reply 204 ''No Content'' []]" "[]" "''/tasks/t1''" "''DELETE''" JNull
         "\<lparr>status = 204, statusText = ''No Content'', text_body = []\<rparr>" "signed_in []"]
    by (simp add: ev)
  moreover have "fst (apiCall demo_env ''/tasks'' ''GET'' JNull
          \<lparr>world = signed_in [reply 200 ''OK'' ''[]''], netlog = []\<rparr>)
     = Inr (JArr [])"
    using apiCall_response_contract [OF demo_getIdToken,
      of "[reply 200 ''OK'' ''[]'']" "[]" "''/tasks''" "''GET''" JNull
         "\<lparr>status = 200, statusText = ''OK'', text_body = ''[]''\<rparr>" "signed_in []"]
    by (simp add: ev)
  moreover have "fst (apiCall demo_env ''/tasks'' ''GET'' JNull
          \<lparr>world = signed_in [reply 200 ''OK'' ''<html>''], netlog = []\<rparr>)
     = Inl (Error ''Unexpected token'')"
    using apiCall_response_contract [OF demo_getIdToken,
      of "[reply 200 ''OK'' ''<html>'']" "[]" "''/tasks''" "''GET''" JNull
         "\<lparr>status = 200, statusText = ''OK'', text_body = ''<html>''\<rparr>" "signed_in []"]
    by (simp add: ev)
  ultimately show ?thesis by blast
qed

text \<open>
  A 2xx response whose non-empty body is not JSON: the call does not return, it throws
  what \<^verbatim>\<open>JSON.parse\<close> throws.
\<close>

theorem apiCall_2xx_invalid_json_counterexample:
  "ok \<lparr>status = 200, statusText = ''OK'', text_body = ''<html>''\<rparr>
   \<and> text_body \<lparr>status = 200, statusText = ''OK'', text_body = ''<html>''\<rparr> \<noteq> []
   \<and> fst (apiCall demo_env ''/tasks'' ''GET'' JNull
          \<lparr>world = signed_in [reply 200 ''OK'' ''<html>''], netlog = []\<rparr>)
     = Inl (Error ''Unexpected token'')"
  by (simp add: apiCall_def demo_getIdToken fetch_logged_def demo_fetch_reply reply_def
      apiCall_response_def ok_def demo_env_fields demo_parse_html)
section \<open>No session, no request\<close>

lemma getIdToken_no_token:
  assumes "fetchAuthSession env (world s) = (Inr idToken, w)" and "\<not> token_truthy idToken"
  shows "getIdToken env s = (Inl (Error no_id_token_message), s\<lparr>world := w\<rparr>)"
  using assms by (simp add: getIdToken_def)

lemma apiCall_no_token:
  assumes "fetchAuthSession env (world s) = (Inr idToken, w)" and "\<not> token_truthy idToken"
  shows "apiCall env path meth payload s = (Inl (Error no_id_token_message), s\<lparr>world := w\<rparr>)"
  using getIdToken_no_token [OF assms] by (simp add: apiCall_def)

lemma err_text_Error: "err_text (Error msg) = msg"
  by (simp add: err_text_def Error_def)

text \<open>
  Claim C3.  When the session provider yields no id token, \<^verbatim>\<open>apiCall\<close> fails with
  the no-id-token error for every path, method and payload, and so does each of the
  four operations built on it (list, create, update, delete): the component's
  \<open>error\<close> becomes that message.  Nothing is handed to \<^verbatim>\<open>fetch\<close>: the network log is
  as it was.
\<close>

theorem no_session_no_request:
  assumes "fetchAuthSession env (world s) = (Inr idToken, w)" and "\<not> token_truthy idToken"
  shows "apiCall env path meth payload s = (Inl (Error no_id_token_message), s\<lparr>world := w\<rparr>)
    \<and> netlog (snd (apiCall env path meth payload s)) = netlog s
    \<and> loadTasks env (st, s)
        = (st\<lparr>loading := False, error := Some no_id_token_message\<rparr>, s\<lparr>world := w\<rparr>)
    \<and> createTask env (st, s) = (st\<lparr>error := Some no_id_token_message\<rparr>, s\<lparr>world := w\<rparr>)
    \<and> updateTask env taskId patch (st, s)
        = (st\<lparr>error := Some no_id_token_message\<rparr>, s\<lparr>world := w\<rparr>)
    \<and> removeTask env taskId (st, s)
        = (st\<lparr>error := Some no_id_token_message\<rparr>, s\<lparr>world := w\<rparr>)
    \<and> netlog (s\<lparr>world := w\<rparr>) = netlog s"
proof -
  note call = apiCall_no_token [OF assms]
  obtain p where p: "create_payload env (form st) = Inr p"
    using create_payload_total by blast
  obtain b where b: "update_body env taskId patch = Inr b"
    using update_body_total by blast
  have "loadTasks env (st, s)
      = (st\<lparr>loading := False, error := Some no_id_token_message\<rparr>, s\<lparr>world := w\<rparr>)"
    by (simp add: loadTasks_def loadTasks_start_def call err_text_Error)
  moreover have "createTask env (st, s)
      = (st\<lparr>error := Some no_id_token_message\<rparr>, s\<lparr>world := w\<rparr>)"
    by (simp add: createTask_def p call err_text_Error)
  moreover have "updateTask env taskId patch (st, s)
      = (st\<lparr>error := Some no_id_token_message\<rparr>, s\<lparr>world := w\<rparr>)"
    by (simp add: updateTask_def b call err_text_Error)
  moreover have "removeTask env taskId (st, s)
      = (st\<lparr>error := Some no_id_token_message\<rparr>, s\<lparr>world := w\<rparr>)"
    by (simp add: removeTask_def call err_text_Error)
  ultimately show ?thesis by (simp add: call)
qed

theorem no_session_no_request_witness:
  "apiCall demo_env ''/tasks'' ''GET'' JNull \<lparr>world = signed_out [reply 200 ''OK'' ''[]''], netlog = []\<rparr>
     = (Inl (Error no_id_token_message), \<lparr>world = signed_out [reply 200 ''OK'' ''[]''], netlog = []\<rparr>)
   \<and> loadTasks demo_env (initial_app, \<lparr>world = signed_out [reply 200 ''OK'' ''[]''], netlog = []\<rparr>)
     = (initial_app\<lparr>error := Some no_id_token_message\<rparr>,
        \<lparr>world = signed_out [reply 200 ''OK'' ''[]''], netlog = []\<rparr>)
   \<and> createTask demo_env (initial_app, \<lparr>world = signed_out [reply 200 ''OK'' ''[]''], netlog = []\<rparr>)
     = (initial_app\<lparr>error := Some no_id_token_message\<rparr>,
        \<lparr>world = signed_out [reply 200 ''OK'' ''[]''], netlog = []\<rparr>)
   \<and> updateTask demo_env (JStr ''t1'') (toggle_patch milk_task)
        (initial_app, \<lparr>world = signed_out [reply 200 ''OK'' ''[]''], netlog = []\<rparr>)
     = (initial_app\<lparr>error := Some no_id_token_message\<rparr>,
        \<lparr>world = signed_out [reply 200 ''OK'' ''[]''], netlog = []\<rparr>)
   \<and> removeTask demo_env (JStr ''t1'')
        (initial_app, \<lparr>world = signed_out [reply 200 ''OK'' ''[]''], netlog = []\<rparr>)
     = (initial_app\<lparr>error := Some no_id_token_message\<rparr>,
        \<lparr>world = signed_out [reply 200 ''OK'' ''[]''], netlog = []\<rparr>)"
proof -
  have s: "fetchAuthSession demo_env (world \<lparr>world = signed_out [reply 200 ''OK'' ''[]''], netlog = []\<rparr>)
      = (Inr None, signed_out [reply 200 ''OK'' ''[]''])"
    by (simp add: demo_env_fields signed_out_def)
  have t: "\<not> token_truthy None"
    by (simp add: token_truthy_def)
  show ?thesis
    using no_session_no_request [OF s t, of "''/tasks''" "''GET''" JNull initial_app
        "JStr ''t1''" "toggle_patch milk_task"]
    by (simp add: initial_app_def)
qed
section \<open>The calendar\<close>

lemma div_bounds:
  fixes a k :: int
  assumes "0 < k"
  shows "k * (a div k) \<le> a" and "a < k * (a div k) + k"
proof -
  have "a = k * (a div k) + a mod k" by simp
  moreover have "0 \<le> a mod k" "a mod k < k" using assms by simp_all
  ultimately show "k * (a div k) \<le> a" and "a < k * (a div k) + k" by linarith+
qed

lemma div_eqI:
  fixes a k q :: int
  assumes "k * q \<le> a" and "a < k * q + k"
  shows "a div k = q"
proof -
  have "a = k * q + (a - k * q)" by simp
  moreover have "0 \<le> a - k * q" "a - k * q < k" using assms by simp_all
  ultimately show ?thesis by (rule int_div_pos_eq)
qed

lemma DayFromYear_bounds:
  "400 * DayFromYear y \<le> 146097 * y - 287810501"
  "146097 * y - 287811596 \<le> 400 * DayFromYear y"
proof -
  define a b c where "a = (y - 1969) div 4" and "b = (y - 1901) div 100" and "c = (y - 1601) div 400"
  have "4 * a \<le> y - 1969" "y - 1969 < 4 * a + 4"
    using div_bounds [of 4 "y - 1969"] by (simp_all add: a_def)
  moreover have "100 * b \<le> y - 1901" "y - 1901 < 100 * b + 100"
    using div_bounds [of 100 "y - 1901"] by (simp_all add: b_def)
  moreover have "400 * c \<le> y - 1601" "y - 1601 < 400 * c + 400"
    using div_bounds [of 400 "y - 1601"] by (simp_all add: c_def)
  moreover have "DayFromYear y = 365 * y - 719050 + a - b + c"
    by (simp add: DayFromYear_def a_def b_def c_def)
  ultimately show "400 * DayFromYear y \<le> 146097 * y - 287810501"
    and "146097 * y - 287811596 \<le> 400 * DayFromYear y"
    by linarith+
qed

lemma YearFromDay_range:
  "DayFromYear (YearFromDay d) \<le> d" "d < DayFromYear (YearFromDay d + 1)"
proof -
  define y where "y = 1970 + (400 * d) div 146097"
  define q where "q = (400 * d) div 146097"
  have q: "146097 * q \<le> 400 * d" "400 * d < 146097 * q + 146097"
    using div_bounds [of 146097 "400 * d"] by (simp_all add: q_def)
  have yq: "y = 1970 + q" by (simp add: y_def q_def)
  define y1 y2 where "y1 = y - 1" and "y2 = y + 1 + 1"
  have lo: "DayFromYear (y - 1) \<le> d"
    using DayFromYear_bounds(1) [of y1] q yq unfolding y1_def [symmetric]
    using y1_def by linarith
  have hi: "d < DayFromYear (y + 1 + 1)"
    using DayFromYear_bounds(2) [of y2] q yq unfolding y2_def [symmetric]
    using y2_def by linarith
  have yfd: "YearFromDay d = (if d < DayFromYear y then y - 1
      else if DayFromYear (y + 1) \<le> d then y + 1 else y)"
    by (simp add: YearFromDay_def y_def Let_def)
  show "DayFromYear (YearFromDay d) \<le> d"
    using lo by (simp add: yfd)
  show "d < DayFromYear (YearFromDay d + 1)"
    using hi by (simp add: yfd)
qed

lemma leap_step:
  fixes a :: int
  shows "(a + 1) div 4 = a div 4 + (if (a + 1) mod 4 = 0 then 1 else 0)"
    and "(a + 1) div 100 = a div 100 + (if (a + 1) mod 100 = 0 then 1 else 0)"
    and "(a + 1) div 400 = a div 400 + (if (a + 1) mod 400 = 0 then 1 else 0)"
proof -
  have step: "(a + 1) div k = a div k + (if (a + 1) mod k = 0 then 1 else 0)" if "0 < k" for k :: int
  proof (cases "(a + 1) mod k = 0")
    case True
    then have "a + 1 = k * ((a + 1) div k)" by (metis mult_div_mod_eq add.right_neutral)
    then have "k * ((a + 1) div k - 1) \<le> a" "a < k * ((a + 1) div k - 1) + k"
      using that by (simp_all add: algebra_simps)
    then have "a div k = (a + 1) div k - 1" by (rule div_eqI)
    with True show ?thesis by simp
  next
    case False
    have "0 \<le> (a + 1) mod k" using that by simp
    with False have "0 < (a + 1) mod k" by linarith
    moreover have "a + 1 = k * ((a + 1) div k) + (a + 1) mod k" by simp
    moreover have "(a + 1) mod k < k" using that by simp
    ultimately have "k * ((a + 1) div k) \<le> a" "a < k * ((a + 1) div k) + k"
      by linarith+
    then have "a div k = (a + 1) div k" by (rule div_eqI)
    with False show ?thesis by simp
  qed
  show "(a + 1) div 4 = a div 4 + (if (a + 1) mod 4 = 0 then 1 else 0)" by (rule step) simp
  show "(a + 1) div 100 = a div 100 + (if (a + 1) mod 100 = 0 then 1 else 0)" by (rule step) simp
  show "(a + 1) div 400 = a div 400 + (if (a + 1) mod 400 = 0 then 1 else 0)" by (rule step) simp
qed

lemma year_mods:
  fixes y :: int
  shows "(y - 1968) mod 4 = y mod 4" "(y - 1900) mod 100 = y mod 100" "(y - 1600) mod 400 = y mod 400"
proof -
  have "(y - 1968) mod 4 = (y + 4 * (- 492)) mod 4" by simp
  also have "\<dots> = y mod 4" by (rule mod_mult_self2)
  finally show "(y - 1968) mod 4 = y mod 4" .
  have "(y - 1900) mod 100 = (y + 100 * (- 19)) mod 100" by simp
  also have "\<dots> = y mod 100" by (rule mod_mult_self2)
  finally show "(y - 1900) mod 100 = y mod 100" .
  have "(y - 1600) mod 400 = (y + 400 * (- 4)) mod 400" by simp
  also have "\<dots> = y mod 400" by (rule mod_mult_self2)
  finally show "(y - 1600) mod 400 = y mod 400" .
qed

lemma mod_100_4: "(y::int) mod 100 = 0 \<Longrightarrow> y mod 4 = 0"
proof -
  assume "y mod 100 = 0"
  then have "y = 100 * (y div 100)" by (metis mult_div_mod_eq add.right_neutral)
  then have "y = 4 * (25 * (y div 100))" by simp
  then show "y mod 4 = 0" by (metis mod_mult_self1_is_0)
qed

lemma mod_400_100: "(y::int) mod 400 = 0 \<Longrightarrow> y mod 100 = 0"
proof -
  assume "y mod 400 = 0"
  then have "y = 400 * (y div 400)" by (metis mult_div_mod_eq add.right_neutral)
  then have "y = 100 * (4 * (y div 400))" by simp
  then show "y mod 100 = 0" by (metis mod_mult_self1_is_0)
qed

lemma DayFromYear_Suc: "DayFromYear (y + 1) = DayFromYear y + DaysInYear y"
proof -
  have a: "(y + 1 - 1969) div 4 = (y - 1969) div 4 + (if y mod 4 = 0 then 1 else 0)"
    using leap_step(1) [of "y - 1969"] year_mods(1) [of y] by (simp add: algebra_simps)
  have b: "(y + 1 - 1901) div 100 = (y - 1901) div 100 + (if y mod 100 = 0 then 1 else 0)"
    using leap_step(2) [of "y - 1901"] year_mods(2) [of y] by (simp add: algebra_simps)
  have c: "(y + 1 - 1601) div 400 = (y - 1601) div 400 + (if y mod 400 = 0 then 1 else 0)"
    using leap_step(3) [of "y - 1601"] year_mods(3) [of y] by (simp add: algebra_simps)
  show ?thesis
    unfolding DayFromYear_def DaysInYear_def a b c
    using mod_100_4 [of y] mod_400_100 [of y] by auto
qed

lemma DaysInYear_cases: "DaysInYear y = 365 \<or> DaysInYear y = 366"
  by (simp add: DaysInYear_def)

lemma DayFromYear_mono: "y \<le> y' \<Longrightarrow> DayFromYear y \<le> DayFromYear y'"
proof (induction "nat (y' - y)" arbitrary: y')
  case 0
  then show ?case by simp
next
  case (Suc n)
  then have "n = nat ((y' - 1) - y)" "y \<le> y' - 1" by linarith+
  then have "DayFromYear y \<le> DayFromYear (y' - 1)" using Suc.hyps(1) by blast
  moreover have "DayFromYear (y' - 1) \<le> DayFromYear y'"
    using DayFromYear_Suc [of "y' - 1"] DaysInYear_cases [of "y' - 1"] by auto
  ultimately show ?case by linarith
qed

lemma YearFromDay_unique:
  assumes "DayFromYear y \<le> d" and "d < DayFromYear (y + 1)"
  shows "YearFromDay d = y"
proof (rule ccontr)
  assume ne: "YearFromDay d \<noteq> y"
  note r = YearFromDay_range [of d]
  show False
  proof (cases "YearFromDay d < y")
    case True
    then have "DayFromYear (YearFromDay d + 1) \<le> DayFromYear y"
      by (intro DayFromYear_mono) simp
    with r assms show False by linarith
  next
    case False
    with ne have "DayFromYear (y + 1) \<le> DayFromYear (YearFromDay d)"
      by (intro DayFromYear_mono) simp
    with r assms show False by linarith
  qed
qed

text \<open>\<open>YearFromDay\<close> is the largest year that starts on or before the day.\<close>

lemma YearFromDay_greatest:
  "DayFromYear (YearFromDay d) \<le> d \<and> (\<forall>y. DayFromYear y \<le> d \<longrightarrow> y \<le> YearFromDay d)"
proof (intro conjI allI impI)
  show "DayFromYear (YearFromDay d) \<le> d" by (rule YearFromDay_range)
next
  fix y assume le: "DayFromYear y \<le> d"
  show "y \<le> YearFromDay d"
  proof (rule ccontr)
    assume "\<not> y \<le> YearFromDay d"
    then have "DayFromYear (YearFromDay d + 1) \<le> DayFromYear y"
      by (intro DayFromYear_mono) simp
    with le YearFromDay_range(2) [of d] show False by linarith
  qed
qed
section \<open>Time within the day\<close>

lemma div_mod_decomp:
  fixes q r k :: int
  assumes "0 \<le> r" and "r < k"
  shows "(k * q + r) div k = q" and "(k * q + r) mod k = r"
  using assms by (auto intro: int_div_pos_eq int_mod_pos_eq)

lemma div_chain:
  fixes t :: int
  shows "t div 60000 = (t div 1000) div 60"
    and "t div 3600000 = (t div 60000) div 60"
    and "t div 86400000 = (t div 3600000) div 24"
proof -
  have "t div (1000 * 60) = (t div 1000) div 60" by (rule zdiv_zmult2_eq) simp
  then show "t div 60000 = (t div 1000) div 60" by simp
  have "t div (60000 * 60) = (t div 60000) div 60" by (rule zdiv_zmult2_eq) simp
  then show "t div 3600000 = (t div 60000) div 60" by simp
  have "t div (3600000 * 24) = (t div 3600000) div 24" by (rule zdiv_zmult2_eq) simp
  then show "t div 86400000 = (t div 3600000) div 24" by simp
qed

lemma time_fields_range:
  "0 \<le> HourFromTime t" "HourFromTime t < 24" "0 \<le> MinFromTime t" "MinFromTime t < 60"
  "0 \<le> SecFromTime t" "SecFromTime t < 60" "0 \<le> msFromTime t" "msFromTime t < 1000"
  by (simp_all add: HourFromTime_def MinFromTime_def SecFromTime_def msFromTime_def msPerSecond_def)

text \<open>A time value is the day and the four fields of the time within the day.\<close>

lemma time_decomposition:
  "MakeDate (Day t) (MakeTime (HourFromTime t) (MinFromTime t) (SecFromTime t) (msFromTime t)) = t"
proof -
  define S M H D where "S = t div 1000" and "M = t div 60000" and "H = t div 3600000"
    and "D = t div 86400000"
  have 1: "t = 1000 * S + t mod 1000" by (simp add: S_def)
  have 2: "S = 60 * M + S mod 60" using div_chain(1) [of t] by (simp add: S_def M_def)
  have 3: "M = 60 * H + M mod 60" using div_chain(2) [of t] by (simp add: M_def H_def)
  have 4: "H = 24 * D + H mod 24" using div_chain(3) [of t] by (simp add: H_def D_def)
  have "MakeDate (Day t) (MakeTime (HourFromTime t) (MinFromTime t) (SecFromTime t) (msFromTime t))
      = D * 86400000 + (H mod 24 * 3600000 + M mod 60 * 60000 + S mod 60 * 1000 + t mod 1000)"
    by (simp add: MakeDate_def MakeTime_def Day_def HourFromTime_def MinFromTime_def
        SecFromTime_def msFromTime_def msPerDay_def msPerHour_def msPerMinute_def msPerSecond_def
        S_def M_def H_def D_def)
  also have "\<dots> = t" using 1 2 3 4 by linarith
  finally show ?thesis .
qed

text \<open>Conversely, the fields of a time built from a day and four fields in range.\<close>

lemma MakeTime_range:
  assumes "0 \<le> h" "h < 24" "0 \<le> mi" "mi < 60" "0 \<le> s" "s < 60" "0 \<le> ms" "ms < 1000"
  shows "0 \<le> MakeTime h mi s ms" and "MakeTime h mi s ms < msPerDay"
  using assms by (simp_all add: MakeTime_def msPerDay_def msPerHour_def msPerMinute_def msPerSecond_def)

lemma Day_MakeDate:
  assumes "0 \<le> tod" and "tod < msPerDay"
  shows "Day (MakeDate day tod) = day"
proof -
  have "MakeDate day tod = 86400000 * day + tod" by (simp add: MakeDate_def msPerDay_def)
  then show ?thesis
    using assms div_mod_decomp(1) [of tod 86400000 day] by (simp add: Day_def msPerDay_def)
qed

lemma fields_of_MakeTime:
  fixes day :: int
  assumes "0 \<le> h" "h < 24" "0 \<le> mi" "mi < 60" "0 \<le> s" "s < 60" "0 \<le> ms" "ms < 1000"
  defines "t \<equiv> MakeDate day (MakeTime h mi s ms)"
  shows "HourFromTime t = h" "MinFromTime t = mi" "SecFromTime t = s" "msFromTime t = ms"
proof -
  define S M H where "S = 60 * (60 * (24 * day + h) + mi) + s" and "M = 60 * (24 * day + h) + mi"
    and "H = 24 * day + h"
  have t: "t = 1000 * S + ms"
    by (simp add: t_def S_def MakeDate_def MakeTime_def msPerDay_def msPerHour_def msPerMinute_def
        msPerSecond_def)
  have S: "S = 60 * M + s" by (simp add: S_def M_def)
  have M: "M = 60 * H + mi" by (simp add: M_def H_def)
  have tS: "t div 1000 = S" and tms: "t mod 1000 = ms"
    using div_mod_decomp [of ms 1000 S] assms(7,8) by (simp_all add: t)
  have SM: "S div 60 = M" and Ss: "S mod 60 = s"
    using div_mod_decomp [of s 60 M] assms(5,6) by (simp_all add: S)
  have MH: "M div 60 = H" and Mmi: "M mod 60 = mi"
    using div_mod_decomp [of mi 60 H] assms(3,4) by (simp_all add: M)
  have Hh: "H mod 24 = h"
    using div_mod_decomp(2) [of h 24 day] assms(1,2) by (simp add: H_def)
  have tM: "t div 60000 = M" using div_chain(1) [of t] tS SM by simp
  have tH: "t div 3600000 = H" using div_chain(2) [of t] tM MH by simp
  show "HourFromTime t = h" by (simp add: HourFromTime_def msPerHour_def tH Hh)
  show "MinFromTime t = mi" by (simp add: MinFromTime_def msPerMinute_def tM Mmi)
  show "SecFromTime t = s" by (simp add: SecFromTime_def msPerSecond_def tS Ss)
  show "msFromTime t = ms" by (simp add: msFromTime_def msPerSecond_def tms)
qed

section \<open>Year, month and date of a time value\<close>

lemma year_of_day:
  assumes "0 \<le> k" and "k < DaysInYear y" and "Day t = DayFromYear y + k"
  shows "YearFromTime t = y" and "DayWithinYear t = k"
    and "InLeapYear t = (if DaysInYear y = 366 then 1 else 0)"
proof -
  show y: "YearFromTime t = y"
    unfolding YearFromTime_def
    using assms DayFromYear_Suc [of y] by (intro YearFromDay_unique) simp_all
  show "DayWithinYear t = k" by (simp add: DayWithinYear_def y assms(3))
  show "InLeapYear t = (if DaysInYear y = 366 then 1 else 0)" by (simp add: InLeapYear_def y)
qed

lemma DayWithinYear_range: "0 \<le> DayWithinYear t" "DayWithinYear t < DaysInYear (YearFromTime t)"
  using YearFromDay_range [of "Day t"] DayFromYear_Suc [of "YearFromDay (Day t)"]
  by (simp_all add: DayWithinYear_def YearFromTime_def)

lemma month_cases:
  fixes m :: int
  assumes "0 \<le> m" and "m \<le> 11"
  shows "m = 0 \<or> m = 1 \<or> m = 2 \<or> m = 3 \<or> m = 4 \<or> m = 5 \<or> m = 6 \<or> m = 7 \<or> m = 8 \<or> m = 9
    \<or> m = 10 \<or> m = 11"
proof -
  have "m \<in> set [0..11]" using assms by simp
  then show ?thesis by (simp add: upto.simps)
qed

lemma fields_of_MakeDay:
  assumes m: "0 \<le> m" "m \<le> 11"
    and dt: "1 \<le> dt" "dt \<le> int (DaysInMonth y (nat (m + 1)))"
    and tod: "0 \<le> tod" "tod < msPerDay"
  defines "t \<equiv> MakeDate (MakeDay y m dt) tod"
  shows "YearFromTime t = y" and "MonthFromTime t = m" and "DateFromTime t = dt"
proof -
  define l :: int where "l = (if DaysInYear y = 366 then 1 else 0)"
  define k where "k = month_start m l + dt - 1"
  have md: "m div 12 = 0" "m mod 12 = m" using m by simp_all
  have day: "Day t = DayFromYear y + k"
    using tod by (simp add: t_def Day_MakeDate MakeDay_def md k_def l_def)
  have lc: "(DaysInYear y = 366 \<and> l = 1) \<or> (DaysInYear y = 365 \<and> l = 0)"
    using DaysInYear_cases [of y] by (auto simp: l_def)
  have k: "0 \<le> k \<and> k < DaysInYear y"
    using lc
  proof (elim disjE conjE)
    assume "DaysInYear y = 366" "l = 1"
    with month_cases [OF m] dt show ?thesis
      by (elim disjE) (simp_all add: k_def month_start_def DaysInMonth_def)
  next
    assume "DaysInYear y = 365" "l = 0"
    with month_cases [OF m] dt show ?thesis
      by (elim disjE) (simp_all add: k_def month_start_def DaysInMonth_def)
  qed
  then have k0: "0 \<le> k" and k1: "k < DaysInYear y" by simp_all
  note yk = year_of_day [OF k0 k1 day]
  show "YearFromTime t = y" by (rule yk)
  have ly: "InLeapYear t = l" by (simp add: yk l_def)
  have dwy: "DayWithinYear t = k" by (rule yk)
  have both: "MonthFromTime t = m \<and> DateFromTime t = dt"
    using lc
  proof (elim disjE conjE)
    assume "DaysInYear y = 366" "l = 1"
    with month_cases [OF m] dt show ?thesis
      by (elim disjE)
        (simp_all add: MonthFromTime_def DateFromTime_def Let_def dwy ly k_def month_start_def
          DaysInMonth_def)
  next
    assume "DaysInYear y = 365" "l = 0"
    with month_cases [OF m] dt show ?thesis
      by (elim disjE)
        (simp_all add: MonthFromTime_def DateFromTime_def Let_def dwy ly k_def month_start_def
          DaysInMonth_def)
  qed
  then show "MonthFromTime t = m" and "DateFromTime t = dt" by simp_all
qed
lemma date_fields:
  "0 \<le> MonthFromTime t \<and> MonthFromTime t \<le> 11
    \<and> 1 \<le> DateFromTime t
    \<and> DateFromTime t \<le> int (DaysInMonth (YearFromTime t) (nat (MonthFromTime t + 1)))
    \<and> MakeDay (YearFromTime t) (MonthFromTime t) (DateFromTime t) = Day t"
proof -
  define d where "d = DayWithinYear t"
  define y where "y = YearFromTime t"
  have d: "0 \<le> d" "d < DaysInYear y"
    using DayWithinYear_range [of t] by (simp_all add: d_def y_def)
  have day: "Day t = DayFromYear y + d" by (simp add: d_def DayWithinYear_def y_def)
  have lc: "(DaysInYear y = 366 \<and> InLeapYear t = 1) \<or> (DaysInYear y = 365 \<and> InLeapYear t = 0)"
    using DaysInYear_cases [of y] by (auto simp: InLeapYear_def y_def)
  have m: "0 \<le> MonthFromTime t \<and> MonthFromTime t \<le> 11"
    by (simp add: MonthFromTime_def Let_def)
  have cases: "MonthFromTime t = 0 \<or> MonthFromTime t = 1 \<or> MonthFromTime t = 2 \<or> MonthFromTime t = 3
      \<or> MonthFromTime t = 4 \<or> MonthFromTime t = 5 \<or> MonthFromTime t = 6 \<or> MonthFromTime t = 7
      \<or> MonthFromTime t = 8 \<or> MonthFromTime t = 9 \<or> MonthFromTime t = 10 \<or> MonthFromTime t = 11"
    using m by (intro month_cases) simp_all
  have md: "MonthFromTime t div 12 = 0" "MonthFromTime t mod 12 = MonthFromTime t"
    using m by simp_all
  have rest: "1 \<le> DateFromTime t
      \<and> DateFromTime t \<le> int (DaysInMonth y (nat (MonthFromTime t + 1)))
      \<and> DayFromYear y + month_start (MonthFromTime t) (if DaysInYear y = 366 then 1 else 0)
          + DateFromTime t - 1 = Day t"
    using lc
  proof (elim disjE conjE)
    assume a: "DaysInYear y = 366" "InLeapYear t = 1"
    from cases show ?thesis
    proof (elim disjE)
    qed (use a d in \<open>simp_all add: DateFromTime_def Let_def day d_def [symmetric] month_start_def
          DaysInMonth_def\<close>,
        (simp_all add: MonthFromTime_def Let_def d_def [symmetric] split: if_splits))
  next
    assume a: "DaysInYear y = 365" "InLeapYear t = 0"
    from cases show ?thesis
    proof (elim disjE)
    qed (use a d in \<open>simp_all add: DateFromTime_def Let_def day d_def [symmetric] month_start_def
          DaysInMonth_def\<close>,
        (simp_all add: MonthFromTime_def Let_def d_def [symmetric] split: if_splits))
  qed
  show ?thesis
    using m rest by (simp add: MakeDay_def md Let_def y_def)
qed
section \<open>Digits\<close>

lemma of_char_digit_char: "n < 10 \<Longrightarrow> (of_char (digit_char n) :: nat) = 48 + n"
  by (simp add: digit_char_def)

lemma is_digit_digit_char: "n < 10 \<Longrightarrow> is_digit (digit_char n)"
  by (simp add: is_digit_def of_char_digit_char)

lemma digit_val_digit_char: "n < 10 \<Longrightarrow> digit_val (digit_char n) = n"
  by (simp add: digit_val_def of_char_digit_char)

lemma is_digit_not_sign: "is_digit c \<Longrightarrow> c \<noteq> CHR ''+'' \<and> c \<noteq> CHR ''-''"
  by (auto simp: is_digit_def)

lemma length_digits [simp]: "length (digits k n) = k"
  by (induction k arbitrary: n) simp_all

lemma digits_all: "list_all is_digit (digits k n)"
  by (induction k arbitrary: n) (simp_all add: is_digit_digit_char)

lemma read_nat_snoc: "read_nat (xs @ [c]) = 10 * read_nat xs + digit_val c"
  by (simp add: read_nat_def)

lemma read_nat_digits: "read_nat (digits k n) = n mod 10 ^ k"
proof (induction k arbitrary: n)
  case 0
  show ?case by (simp add: read_nat_def)
next
  case (Suc k)
  have "read_nat (digits (Suc k) n) = 10 * ((n div 10) mod 10 ^ k) + n mod 10"
    by (simp add: read_nat_snoc Suc.IH digit_val_digit_char)
  also have "\<dots> = n mod (10 * 10 ^ k)"
    by (simp add: mod_mult2_eq)
  finally show ?case by simp
qed

lemma take_digits_digits:
  "n < 10 ^ k \<Longrightarrow> take_digits k (digits k n @ rest) = Some (n, rest)"
  by (simp add: take_digits_def digits_all read_nat_digits)

lemma digits_Cons:
  assumes "0 < k"
  shows "\<exists>c cs. digits k n = c # cs \<and> is_digit c"
proof -
  have "length (digits k n) = k" by (rule length_digits)
  then obtain c cs where eq: "digits k n = c # cs"
    using assms by (cases "digits k n") simp_all
  moreover have "list_all is_digit (digits k n)" by (rule digits_all)
  ultimately show ?thesis by auto
qed

section \<open>Reading what \<^verbatim>\<open>toISOString\<close> writes\<close>

lemma parse_year_string:
  assumes "\<bar>y\<bar> < 1000000"
  shows "parse_year (year_string y @ rest) = Some (y, rest)"
proof (cases "0 \<le> y \<and> y \<le> 9999")
  case True
  obtain c cs where cs: "digits 4 (nat y) = c # cs" "is_digit c"
    using digits_Cons [of 4 "nat y"] by auto
  have "nat y < 10000" using True by linarith
  then have "nat y < 10 ^ 4" by simp
  then have "take_digits 4 (digits 4 (nat y) @ rest) = Some (nat y, rest)"
    by (rule take_digits_digits)
  then have td: "take_digits 4 (c # cs @ rest) = Some (nat y, rest)"
    by (simp only: cs(1) append_Cons)
  have ys: "year_string y @ rest = c # cs @ rest"
    using True by (simp add: year_string_def cs(1) del: digits.simps)
  show ?thesis
    unfolding ys parse_year_def
    using True is_digit_not_sign [OF cs(2)] td by simp
next
  case False
  have "nat \<bar>y\<bar> < 1000000" using assms by linarith
  then have "nat \<bar>y\<bar> < 10 ^ 6" by simp
  then have td: "take_digits 6 (digits 6 (nat \<bar>y\<bar>) @ rest) = Some (nat \<bar>y\<bar>, rest)"
    by (rule take_digits_digits)
  show ?thesis
  proof (cases "y < 0")
    case True
    then show ?thesis
      using td by (simp add: parse_year_def year_string_def del: digits.simps)
  next
    case False
    with \<open>\<not> (0 \<le> y \<and> y \<le> 9999)\<close> show ?thesis
      using td by (simp add: parse_year_def year_string_def del: digits.simps)
  qed
qed

lemma parse_date_string:
  assumes "\<bar>y\<bar> < 1000000" and "m < 100" and "d < 100" and "\<And>r. rest \<noteq> CHR ''-'' # r"
  shows "parse_date (year_string y @ CHR ''-'' # digits 2 m @ CHR ''-'' # digits 2 d @ rest)
    = Some ((y, m, d), rest)"
proof -
  have 1: "take_digits 2 (digits 2 m @ CHR ''-'' # digits 2 d @ rest)
      = Some (m, CHR ''-'' # digits 2 d @ rest)"
    using assms(2) by (intro take_digits_digits) simp
  have 2: "take_digits 2 (digits 2 d @ rest) = Some (d, rest)"
    using assms(3) by (intro take_digits_digits) simp
  show ?thesis
    unfolding parse_date_def parse_year_string [OF assms(1)]
    by (simp add: 1 2 del: digits.simps)
qed

lemma parse_time_full:
  assumes "h < 100" "mi < 100" "s < 100" "ms < 1000"
  shows "parse_time (digits 2 h @ CHR '':'' # digits 2 mi @ CHR '':'' # digits 2 s @ CHR ''.''
      # digits 3 ms @ rest) = Some ((h, mi, s, ms), rest)"
proof -
  have 1: "take_digits 2 (digits 2 h @ CHR '':'' # digits 2 mi @ CHR '':'' # digits 2 s @ CHR ''.''
      # digits 3 ms @ rest) = Some (h, CHR '':'' # digits 2 mi @ CHR '':'' # digits 2 s @ CHR ''.''
      # digits 3 ms @ rest)"
    using assms(1) by (intro take_digits_digits) simp
  have 2: "take_digits 2 (digits 2 mi @ CHR '':'' # digits 2 s @ CHR ''.'' # digits 3 ms @ rest)
      = Some (mi, CHR '':'' # digits 2 s @ CHR ''.'' # digits 3 ms @ rest)"
    using assms(2) by (intro take_digits_digits) simp
  have 3: "take_digits 2 (digits 2 s @ CHR ''.'' # digits 3 ms @ rest)
      = Some (s, CHR ''.'' # digits 3 ms @ rest)"
    using assms(3) by (intro take_digits_digits) simp
  have 4: "take_digits 3 (digits 3 ms @ rest) = Some (ms, rest)"
    using assms(4) by (intro take_digits_digits) simp
  show ?thesis
    unfolding parse_time_def by (simp add: 1 2 3 4 del: digits.simps)
qed

lemma parse_time_minutes:
  assumes "h < 100" "mi < 100"
  shows "parse_time (digits 2 h @ CHR '':'' # digits 2 mi) = Some ((h, mi, 0, 0), [])"
proof -
  have 1: "take_digits 2 (digits 2 h @ CHR '':'' # digits 2 mi) = Some (h, CHR '':'' # digits 2 mi)"
    using assms(1) by (intro take_digits_digits) simp
  have 2: "take_digits 2 (digits 2 mi @ []) = Some (mi, [])"
    using assms(2) by (intro take_digits_digits) simp
  show ?thesis
    unfolding parse_time_def using 2 by (simp add: 1 del: digits.simps)
qed
lemma Day_range:
  assumes "\<bar>t\<bar> \<le> 8640000000000000"
  shows "- 100000000 \<le> Day t" and "Day t \<le> 100000000"
  using div_bounds [of 86400000 t] assms by (simp_all add: Day_def msPerDay_def)

lemma YearFromTime_range:
  assumes "\<bar>t\<bar> \<le> 8640000000000000"
  shows "\<bar>YearFromTime t\<bar> < 1000000"
proof -
  define y where "y = YearFromTime t"
  define y' where "y' = y + 1"
  have "DayFromYear y \<le> Day t" "Day t < DayFromYear y'"
    using YearFromDay_range [of "Day t"] by (simp_all add: y_def y'_def YearFromTime_def)
  then show ?thesis
    using Day_range [OF assms] DayFromYear_bounds(2) [of y] DayFromYear_bounds(1) [of y'] y'_def
    unfolding y_def [symmetric] by linarith
qed

lemma iso_fields_bounds:
  "nat (MonthFromTime t + 1) < 100" "nat (DateFromTime t) < 100" "nat (HourFromTime t) < 100"
  "nat (MinFromTime t) < 100" "nat (SecFromTime t) < 100" "nat (msFromTime t) < 1000"
proof -
  have "DateFromTime t \<le> 31"
    using date_fields [of t] by (auto simp: DaysInMonth_def split: if_splits)
  then show "nat (DateFromTime t) < 100" by linarith
  show "nat (MonthFromTime t + 1) < 100" using date_fields [of t] by linarith
  show "nat (HourFromTime t) < 100" "nat (MinFromTime t) < 100" "nat (SecFromTime t) < 100"
    "nat (msFromTime t) < 1000"
    using time_fields_range [of t] by linarith+
qed

text \<open>The fields \<^verbatim>\<open>Date.parse\<close> reads from the output of \<^verbatim>\<open>toISOString\<close>.\<close>

lemma parse_iso_iso_string:
  assumes "\<bar>t\<bar> \<le> 8640000000000000"
  shows "parse_iso (iso_string t) =
    Some \<lparr>f_year = YearFromTime t, f_month = nat (MonthFromTime t + 1),
          f_day = nat (DateFromTime t), f_has_time = True, f_hour = nat (HourFromTime t),
          f_minute = nat (MinFromTime t), f_second = nat (SecFromTime t),
          f_ms = nat (msFromTime t), f_offset = Zulu\<rparr>"
proof -
  have d: "parse_date (year_string (YearFromTime t) @ CHR ''-'' # digits 2 (nat (MonthFromTime t + 1))
      @ CHR ''-'' # digits 2 (nat (DateFromTime t)) @ CHR ''T'' # rest)
    = Some ((YearFromTime t, nat (MonthFromTime t + 1), nat (DateFromTime t)), CHR ''T'' # rest)"
    for rest
    by (rule parse_date_string) (use YearFromTime_range [OF assms] iso_fields_bounds in simp_all)
  have tm: "parse_time (digits 2 (nat (HourFromTime t)) @ CHR '':'' # digits 2 (nat (MinFromTime t))
      @ CHR '':'' # digits 2 (nat (SecFromTime t)) @ CHR ''.'' # digits 3 (nat (msFromTime t)) @ ''Z'')
    = Some ((nat (HourFromTime t), nat (MinFromTime t), nat (SecFromTime t), nat (msFromTime t)), ''Z'')"
    by (rule parse_time_full) (rule iso_fields_bounds)+
  have off: "parse_offset ''Z'' = Some Zulu"
    by (simp add: parse_offset_def)
  show ?thesis
    unfolding parse_iso_def iso_string_def
    by (simp add: d tm off del: digits.simps)
qed

lemma Date_parse_iso_string:
  assumes "\<bar>t\<bar> \<le> 8640000000000000"
  shows "Date_parse env (iso_string t) = Some t"
proof -
  define f where "f = \<lparr>f_year = YearFromTime t, f_month = nat (MonthFromTime t + 1),
          f_day = nat (DateFromTime t), f_has_time = True, f_hour = nat (HourFromTime t),
          f_minute = nat (MinFromTime t), f_second = nat (SecFromTime t),
          f_ms = nat (msFromTime t), f_offset = Zulu\<rparr>"
  note df = date_fields [of t]
  note tf = time_fields_range [of t]
  have "1 \<le> nat (MonthFromTime t + 1)" "nat (MonthFromTime t + 1) \<le> 12"
    "1 \<le> nat (DateFromTime t)"
    "nat (DateFromTime t) \<le> DaysInMonth (YearFromTime t) (nat (MonthFromTime t + 1))"
    "nat (HourFromTime t) < 24" "nat (MinFromTime t) < 60" "nat (SecFromTime t) < 60"
    using df tf by linarith+
  then have legal: "legal_fields f"
    by (simp add: legal_fields_def f_def)
  have "fields_time env f
      = MakeDate (MakeDay (YearFromTime t) (MonthFromTime t) (DateFromTime t))
          (MakeTime (HourFromTime t) (MinFromTime t) (SecFromTime t) (msFromTime t))"
    using df tf by (simp add: fields_time_def f_def)
  also have "\<dots> = t" using df time_decomposition [of t] by simp
  finally have tv: "fields_time env f = t" .
  show ?thesis
    using assms by (simp add: Date_parse_def parse_iso_iso_string [OF assms] f_def [symmetric] legal tv TimeClip_def)
qed

lemma iso_string_not_empty: "iso_string t \<noteq> []"
  by (simp add: iso_string_def)
section \<open>The two converters\<close>

lemma clipped_range: "clipped tv = Some t \<Longrightarrow> \<bar>t\<bar> \<le> 8640000000000000"
  by (auto simp: clipped_def TimeClip_def split: option.splits if_splits)

lemma Date_new_range: "Date_new env v = Some t \<Longrightarrow> \<bar>t\<bar> \<le> 8640000000000000"
  by (cases v) (auto simp: Date_new_def dest: clipped_range split: if_splits)

lemma Date_new_iso_string:
  assumes "\<bar>t\<bar> \<le> 8640000000000000"
  shows "Date_new env (JStr (iso_string t)) = Some t"
  using assms by (simp add: Date_new_def Date_parse_iso_string clipped_def TimeClip_def)

lemma parseDateForAPI_iso_string:
  assumes "\<bar>t\<bar> \<le> 8640000000000000"
  shows "parseDateForAPI env (JStr (iso_string t)) = Inr (JStr (iso_string t))"
  by (simp add: parseDateForAPI_total iso_string_not_empty Date_new_iso_string [OF assms])

lemma trunc_div_multiple: "0 < b \<Longrightarrow> a mod b = 0 \<Longrightarrow> trunc_div a b * b = a"
  by (auto simp: trunc_div_def zmod_zminus1_eq_if)

lemma getTimezoneOffset_eq:
  assumes "LocalTZA env t True mod msPerMinute = 0"
  shows "getTimezoneOffset env t * 60 * 1000 = - LocalTZA env t True"
proof -
  have "(- LocalTZA env t True) mod msPerMinute = 0"
    using assms by (simp add: zmod_zminus1_eq_if)
  then have "trunc_div (- LocalTZA env t True) msPerMinute * msPerMinute = - LocalTZA env t True"
    by (intro trunc_div_multiple) (simp_all add: msPerMinute_def)
  then show ?thesis
    by (simp add: getTimezoneOffset_def LocalTime_def msPerMinute_def)
qed

lemma formatDateForInput_eq:
  "formatDateForInput env v =
     (if \<not> truthy env v then Inr (JStr [])
      else case Date_new env v of
             None \<Rightarrow> Inr (JStr [])
           | Some t \<Rightarrow>
               (if \<bar>t - getTimezoneOffset env t * 60 * 1000\<bar> > 8640000000000000
                then Inl (Error (invalid_time_message env))
                else Inr (JStr (take 16 (iso_string (t - getTimezoneOffset env t * 60 * 1000))))))"
  by (simp add: formatDateForInput_def toISOString_def TimeClip_def Let_def split: option.splits)
section \<open>Editable to wire and back\<close>

lemma month_start_range: "0 \<le> m \<Longrightarrow> m \<le> 11 \<Longrightarrow> 0 \<le> l \<Longrightarrow> l \<le> 1 \<Longrightarrow>
  0 \<le> month_start m l \<and> month_start m l \<le> 335"
  by (simp add: month_start_def)

lemma DaysInMonth_le: "DaysInMonth y m \<le> 31"
  by (simp add: DaysInMonth_def)

lemma local_time_value_fields:
  assumes "valid_local Y M D h mi"
  defines "t \<equiv> local_time_value Y M D h mi"
  shows "YearFromTime t = int Y" "MonthFromTime t = int M - 1" "DateFromTime t = int D"
    "HourFromTime t = int h" "MinFromTime t = int mi" "SecFromTime t = 0" "msFromTime t = 0"
proof -
  have tod: "0 \<le> MakeTime (int h) (int mi) 0 0" "MakeTime (int h) (int mi) 0 0 < msPerDay"
    using assms(1) by (simp_all add: MakeTime_range valid_local_def)
  have m: "0 \<le> int M - 1" "int M - 1 \<le> 11"
    using assms(1) by (simp_all add: valid_local_def)
  have d: "1 \<le> int D" "int D \<le> int (DaysInMonth (int Y) (nat (int M - 1 + 1)))"
    using assms(1) by (simp_all add: valid_local_def)
  show "YearFromTime t = int Y" "MonthFromTime t = int M - 1" "DateFromTime t = int D"
    unfolding t_def local_time_value_def
    by (rule fields_of_MakeDay [OF m d tod])+
  show "HourFromTime t = int h" "MinFromTime t = int mi" "SecFromTime t = 0" "msFromTime t = 0"
    unfolding t_def local_time_value_def
    using assms(1) by (simp_all add: fields_of_MakeTime valid_local_def)
qed

lemma iso_string_local:
  assumes "valid_local Y M D h mi"
  shows "take 16 (iso_string (local_time_value Y M D h mi)) = local_string Y M D h mi"
proof -
  have Y: "year_string (int Y) = digits 4 Y"
    using assms by (simp add: year_string_def valid_local_def del: digits.simps)
  have M: "nat (int M - 1 + 1) = M" by simp
  show ?thesis
    unfolding iso_string_def local_time_value_fields [OF assms] Y M local_string_def
    by (simp del: digits.simps)
qed

lemma local_time_value_range:
  assumes "valid_local Y M D h mi"
  shows "\<bar>local_time_value Y M D h mi\<bar> \<le> 300000000000000"
proof -
  define y :: int where "y = int Y"
  define l :: int where "l = (if DaysInYear y = 366 then 1 else 0)"
  define ms where "ms = month_start (int M - 1) l"
  define tod where "tod = MakeTime (int h) (int mi) 0 0"
  have tod: "0 \<le> tod" "tod < 86400000"
    using assms MakeTime_range [of "int h" "int mi" 0 0]
    by (simp_all add: valid_local_def tod_def msPerDay_def)
  have y: "0 \<le> y" "y \<le> 9999" using assms by (simp_all add: valid_local_def y_def)
  have ms: "0 \<le> ms" "ms \<le> 335"
    using month_start_range [of "int M - 1" l] assms by (simp_all add: ms_def l_def valid_local_def)
  have D: "1 \<le> int D" "int D \<le> 31"
    using assms DaysInMonth_le [of "int Y" M] by (simp_all add: valid_local_def)
  have md: "(int M - 1) div 12 = 0" "(int M - 1) mod 12 = int M - 1"
    using assms by (simp_all add: valid_local_def)
  have day: "MakeDay y (int M - 1) (int D) = DayFromYear y + ms + int D - 1"
    by (simp add: MakeDay_def md ms_def l_def)
  define K where "K = DayFromYear y + ms + int D - 1"
  have "local_time_value Y M D h mi = K * 86400000 + tod"
    by (simp add: local_time_value_def MakeDate_def msPerDay_def day [unfolded y_def] tod_def y_def
        K_def)
  moreover have "- 1000000 \<le> K" "K \<le> 3000000"
    using DayFromYear_bounds [of y] y ms D by (simp_all add: K_def)
  ultimately show ?thesis
    using tod by linarith
qed

lemma parse_iso_local_string:
  assumes "valid_local Y M D h mi"
  shows "parse_iso (local_string Y M D h mi) =
    Some \<lparr>f_year = int Y, f_month = M, f_day = D, f_has_time = True, f_hour = h,
          f_minute = mi, f_second = 0, f_ms = 0, f_offset = NoOffset\<rparr>"
proof -
  have Y: "digits 4 Y = year_string (int Y)"
    using assms by (simp add: year_string_def valid_local_def del: digits.simps)
  have D31: "D \<le> 31" using assms DaysInMonth_le [of "int Y" M] by (simp add: valid_local_def)
  have d: "parse_date (year_string (int Y) @ CHR ''-'' # digits 2 M @ CHR ''-'' # digits 2 D
      @ CHR ''T'' # rest) = Some ((int Y, M, D), CHR ''T'' # rest)" for rest
    by (rule parse_date_string) (use assms D31 in \<open>simp_all add: valid_local_def\<close>)
  have tm: "parse_time (digits 2 h @ CHR '':'' # digits 2 mi) = Some ((h, mi, 0, 0), [])"
    by (rule parse_time_minutes) (use assms in \<open>simp_all add: valid_local_def\<close>)
  have off: "parse_offset [] = Some NoOffset"
    by (simp add: parse_offset_def)
  show ?thesis
    unfolding parse_iso_def local_string_def Y
    by (simp add: d tm off del: digits.simps)
qed

lemma Date_new_local_string:
  assumes "valid_local Y M D h mi"
    and "\<bar>LocalTZA env (local_time_value Y M D h mi) False\<bar> \<le> msPerDay"
  shows "Date_new env (JStr (local_string Y M D h mi)) = Some (UTC env (local_time_value Y M D h mi))"
proof -
  define f where "f = \<lparr>f_year = int Y, f_month = M, f_day = D, f_has_time = True, f_hour = h,
          f_minute = mi, f_second = 0, f_ms = 0, f_offset = NoOffset\<rparr>"
  have legal: "legal_fields f"
    using assms(1) by (simp add: legal_fields_def f_def valid_local_def)
  have tv: "fields_time env f = UTC env (local_time_value Y M D h mi)"
    by (simp add: fields_time_def f_def local_time_value_def)
  have "\<bar>UTC env (local_time_value Y M D h mi)\<bar> \<le> 8640000000000000"
    using local_time_value_range [OF assms(1)] assms(2)
    by (simp add: UTC_def msPerDay_def)
  then show ?thesis
    by (simp add: Date_new_def Date_parse_def parse_iso_local_string [OF assms(1)]
        f_def [symmetric] legal tv clipped_def TimeClip_def)
qed

lemma round_trip_local:
  assumes "valid_local Y M D h mi"
    and "offset_stable env (local_time_value Y M D h mi)"
    and "whole_minutes env (local_time_value Y M D h mi)"
  shows "round_trip env (local_string Y M D h mi) = Inr (JStr (local_string Y M D h mi))"
proof -
  define t where "t = local_time_value Y M D h mi"
  define u where "u = UTC env t"
  have off: "\<bar>LocalTZA env t False\<bar> \<le> msPerDay"
    and same: "LocalTZA env u True = LocalTZA env t False"
    using assms(2) by (simp_all add: offset_stable_def t_def u_def)
  have whole: "LocalTZA env u True mod msPerMinute = 0"
    using assms(3) by (simp add: whole_minutes_def same t_def)
  have new: "Date_new env (JStr (local_string Y M D h mi)) = Some u"
    using Date_new_local_string [OF assms(1)] off by (simp add: t_def u_def)
  have u: "\<bar>u\<bar> \<le> 8640000000000000" using new by (rule Date_new_range)
  have ne: "local_string Y M D h mi \<noteq> []"
    by (simp add: local_string_def)
  have wire: "parseDateForAPI env (JStr (local_string Y M D h mi)) = Inr (JStr (iso_string u))"
    by (simp add: parseDateForAPI_total ne new)
  have shift: "u - getTimezoneOffset env u * 60 * 1000 = t"
    unfolding getTimezoneOffset_eq [OF whole] same by (simp add: u_def UTC_def)
  then have shift': "u - 60000 * getTimezoneOffset env u = t"
    by simp
  have t: "\<bar>t\<bar> \<le> 8640000000000000"
    using local_time_value_range [OF assms(1)] by (simp add: t_def)
  have "formatDateForInput env (JStr (iso_string u)) = Inr (JStr (take 16 (iso_string t)))"
    using t by (simp add: formatDateForInput_eq iso_string_not_empty Date_new_iso_string [OF u] shift')
  then show ?thesis
    by (simp add: round_trip_def wire iso_string_local [OF assms(1)] t_def)
qed
section \<open>Objects\<close>

lemma get_set_prop_same: "get (set_prop kvs k v) k = v"
  by (induction kvs) (auto simp: get_def)

lemma get_set_prop_other: "k' \<noteq> k \<Longrightarrow> get (set_prop kvs k v) k' = get kvs k'"
  by (induction kvs) (auto simp: get_def)

section \<open>The tasks of the collection are normalized\<close>

lemma map_throwing_Inr:
  "map_throwing f xs = Inr ys \<Longrightarrow> y \<in> set ys \<Longrightarrow> \<exists>x. x \<in> set xs \<and> f x = Inr y"
proof (induction xs arbitrary: ys)
  case Nil
  then show ?case by simp
next
  case (Cons a xs)
  from Cons.prems(1) obtain b bs where b: "f a = Inr b" and bs: "map_throwing f xs = Inr bs"
    and ys: "ys = b # bs"
    by (auto split: sum.splits)
  show ?case
  proof (cases "y = b")
    case True
    with b show ?thesis by auto
  next
    case False
    with Cons.prems(2) ys have "y \<in> set bs" by simp
    from Cons.IH [OF bs this] show ?thesis by auto
  qed
qed

lemma normalizedItems_member:
  assumes "normalizedItems env items = Inr ts" and "x \<in> set ts"
  shows "\<exists>item. normalize_item env item = Inr x"
proof (cases items)
  case (JArr xs)
  with assms show ?thesis
    using map_throwing_Inr [of "normalize_item env" xs ts x] by (auto simp: normalizedItems_def)
qed (use assms in \<open>simp_all add: normalizedItems_def\<close>)

lemma listing_of_member:
  assumes "listing_of env e = Some ts" and "x \<in> set ts"
  shows "\<exists>item. normalize_item env item = Inr x"
  using assms
  by (auto simp: listing_of_def split: sum.splits if_splits dest: normalizedItems_member)

lemma last_listing_member:
  "x \<in> set (last_listing env log) \<Longrightarrow> \<exists>item. normalize_item env item = Inr x"
proof (induction log rule: rev_induct)
  case Nil
  then show ?case by (simp add: last_listing_def)
next
  case (snoc e log)
  then show ?case
    by (cases "listing_of env e") (auto simp: last_listing_snoc dest: listing_of_member)
qed

lemma reachable_task_normalized:
  assumes "x \<in> set (tasks (fst (run env w acts)))"
  shows "\<exists>item. normalize_item env item = Inr x"
  using assms last_listing_member by (simp add: run_mirror) blast

lemma normalize_item_deadline:
  assumes "normalize_item env item = Inr x"
  shows "get x ''deadline'' = JNull
    \<or> (\<exists>t. \<bar>t\<bar> \<le> 8640000000000000 \<and> get x ''deadline'' = JStr (iso_string t))"
proof -
  obtain d where d: "read_member env item ''deadline'' = Inr d"
    using assms by (auto simp: normalize_item_def split: sum.splits)
  show ?thesis
  proof (cases "truthy env d")
    case False
    with assms d show ?thesis
      by (auto simp: normalize_item_def get_set_prop_same)
  next
    case True
    with assms d obtain t where t: "Date_new env d = Some t"
      and x: "x = set_prop (spread item) ''deadline'' (JStr (iso_string t))"
      by (auto simp: normalize_item_def toISOString_def split: option.splits)
    from t have "\<bar>t\<bar> \<le> 8640000000000000" by (rule Date_new_range)
    with x show ?thesis by (auto simp: get_set_prop_same)
  qed
qed

lemma parseDateForAPI_wire:
  assumes "d = JNull \<or> (\<exists>t. \<bar>t\<bar> \<le> 8640000000000000 \<and> d = JStr (iso_string t))"
  shows "parseDateForAPI env d = Inr d" and "js_or env d JNull = d"
proof -
  show "parseDateForAPI env d = Inr d"
    using assms by (auto simp: parseDateForAPI_iso_string) (simp add: parseDateForAPI_total)
  show "js_or env d JNull = d"
    using assms by (auto simp: js_or_def iso_string_not_empty)
qed

lemma toggle_patch_get:
  "get (toggle_patch x) ''status''
     = (if get x ''status'' = JStr ''Completed'' then JStr ''Pending'' else JStr ''Completed'')"
  "get (toggle_patch x) ''title'' = get x ''title''"
  "get (toggle_patch x) ''description'' = get x ''description''"
  "get (toggle_patch x) ''deadline'' = get x ''deadline''"
  by (simp_all add: toggle_patch_def get_set_prop_same get_set_prop_other)

lemma toggle_body:
  assumes "get x ''deadline'' = JNull
    \<or> (\<exists>t. \<bar>t\<bar> \<le> 8640000000000000 \<and> get x ''deadline'' = JStr (iso_string t))"
  shows "update_body env (get x ''taskId'') (toggle_patch x) =
    Inr [(''taskId'', get x ''taskId''),
         (''title'', get x ''title''),
         (''description'', js_or env (get x ''description'') (JStr [])),
         (''deadline'', get x ''deadline''),
         (''status'', if get x ''status'' = JStr ''Completed'' then JStr ''Pending''
                      else JStr ''Completed'')]"
  using parseDateForAPI_wire [OF assms, of env]
  by (simp add: update_body_def toggle_patch_get js_or_def)
section \<open>Round trip of the editable format\<close>

lemma is_local_string_iff:
  "is_local_string s \<longleftrightarrow> (\<exists>Y M D h mi. valid_local Y M D h mi \<and> s = local_string Y M D h mi)"
proof
  assume "is_local_string s"
  then obtain f where p: "parse_iso s = Some f"
    by (cases "parse_iso s") (simp_all add: is_local_string_def)
  with \<open>is_local_string s\<close>
  have "valid_local (nat (f_year f)) (f_month f) (f_day f) (f_hour f) (f_minute f)"
    and "s = local_string (nat (f_year f)) (f_month f) (f_day f) (f_hour f) (f_minute f)"
    by (simp_all add: is_local_string_def)
  then show "\<exists>Y M D h mi. valid_local Y M D h mi \<and> s = local_string Y M D h mi"
    by blast
next
  assume "\<exists>Y M D h mi. valid_local Y M D h mi \<and> s = local_string Y M D h mi"
  then obtain Y M D h mi where v: "valid_local Y M D h mi" and s: "s = local_string Y M D h mi"
    by blast
  show "is_local_string s"
    using v by (simp add: is_local_string_def s parse_iso_local_string [OF v])
qed

lemma string_local_time_local_string:
  "valid_local Y M D h mi \<Longrightarrow>
   string_local_time (local_string Y M D h mi) = local_time_value Y M D h mi"
  by (simp add: string_local_time_def parse_iso_local_string)

text \<open>
  Claim C2, as the code has it.  For every valid local minute-precision string
  \<^verbatim>\<open>YYYY-MM-DDTHH:mm\<close> whose local time exists in the host's time zone (the offset in
  force at the instant it denotes is the offset it was read with) and whose offset is
  a whole number of minutes, \<^verbatim>\<open>formatDateForInput(parseDateForAPI(s))\<close> is \<open>s\<close> again.
\<close>

theorem round_trip_existing_local_time:
  assumes "is_local_string s"
    and "offset_stable env (string_local_time s)"
    and "whole_minutes env (string_local_time s)"
  shows "round_trip env s = Inr (JStr s)"
proof -
  from assms(1) obtain Y M D h mi where v: "valid_local Y M D h mi"
    and s: "s = local_string Y M D h mi"
    unfolding is_local_string_iff by blast
  have "offset_stable env (local_time_value Y M D h mi)"
    and "whole_minutes env (local_time_value Y M D h mi)"
    using assms(2,3) by (simp_all add: s string_local_time_local_string [OF v])
  with v show ?thesis
    unfolding s by (rule round_trip_local)
qed

lemma demo_before_change:
  "is_local_string ''2024-03-30T02:30''"
  "offset_stable demo_env (string_local_time ''2024-03-30T02:30'')"
  "whole_minutes demo_env (string_local_time ''2024-03-30T02:30'')"
  by code_simp+

theorem round_trip_existing_local_time_witness:
  "round_trip demo_env ''2024-03-30T02:30'' = Inr (JStr ''2024-03-30T02:30'')"
  using demo_before_change by (rule round_trip_existing_local_time)

text \<open>
  In a zone that moves its clocks forward at 02:00 on 2024-03-31, the valid string
  \<^verbatim>\<open>2024-03-31T02:30\<close> names a local time that is skipped; it comes back as
  \<^verbatim>\<open>2024-03-31T03:30\<close>.  In a zone at local mean time, 53 minutes and 28 seconds
  east, every local time exists, and \<^verbatim>\<open>getTimezoneOffset\<close> is -53: the valid string
  \<^verbatim>\<open>1890-06-15T12:00\<close> goes to the wire as \<^verbatim>\<open>1890-06-15T11:06:32.000Z\<close> and comes
  back as \<^verbatim>\<open>1890-06-15T11:59\<close>.
\<close>

theorem round_trip_counterexample:
  "is_local_string ''2024-03-31T02:30''
   \<and> round_trip demo_env ''2024-03-31T02:30'' = Inr (JStr ''2024-03-31T03:30'')
   \<and> is_local_string ''1890-06-15T12:00''
   \<and> offset_stable lmt_env (string_local_time ''1890-06-15T12:00'')
   \<and> parseDateForAPI lmt_env (JStr ''1890-06-15T12:00'') = Inr (JStr ''1890-06-15T11:06:32.000Z'')
   \<and> getTimezoneOffset lmt_env (- 2510225608000) = - 53
   \<and> round_trip lmt_env ''1890-06-15T12:00'' = Inr (JStr ''1890-06-15T11:59'')"
  by code_simp
section \<open>The deadline on the wire\<close>

text \<open>
  Claim C10.  \<^verbatim>\<open>parseDateForAPI\<close> is the identity on what \<^verbatim>\<open>toISOString\<close> writes for
  a valid time value.  Every task of the collection has as deadline \<^verbatim>\<open>null\<close> or
  such a string, so the body that toggle-complete builds for the PUT carries the
  stored deadline unchanged.
\<close>

theorem wire_deadline_unchanged:
  "(\<bar>t\<bar> \<le> 8640000000000000 \<longrightarrow>
      parseDateForAPI env (JStr (iso_string t)) = Inr (JStr (iso_string t)))
   \<and> (x \<in> set (tasks (fst (run env w acts))) \<longrightarrow>
        (get x ''deadline'' = JNull
          \<or> (\<exists>u. \<bar>u\<bar> \<le> 8640000000000000 \<and> get x ''deadline'' = JStr (iso_string u)))
        \<and> parseDateForAPI env (get x ''deadline'') = Inr (get x ''deadline'')
        \<and> (\<exists>b. update_body env (get x ''taskId'') (toggle_patch x) = Inr b
              \<and> get b ''deadline'' = get x ''deadline''))"
proof (intro conjI impI)
  assume "\<bar>t\<bar> \<le> 8640000000000000"
  then show "parseDateForAPI env (JStr (iso_string t)) = Inr (JStr (iso_string t))"
    by (rule parseDateForAPI_iso_string)
next
  assume "x \<in> set (tasks (fst (run env w acts)))"
  from reachable_task_normalized [OF this]
  obtain item where "normalize_item env item = Inr x" ..
  then have d: "get x ''deadline'' = JNull
      \<or> (\<exists>u. \<bar>u\<bar> \<le> 8640000000000000 \<and> get x ''deadline'' = JStr (iso_string u))"
    by (rule normalize_item_deadline)
  then show "get x ''deadline'' = JNull
      \<or> (\<exists>u. \<bar>u\<bar> \<le> 8640000000000000 \<and> get x ''deadline'' = JStr (iso_string u))" .
  show "parseDateForAPI env (get x ''deadline'') = Inr (get x ''deadline'')"
    using d by (rule parseDateForAPI_wire)
  show "\<exists>b. update_body env (get x ''taskId'') (toggle_patch x) = Inr b
      \<and> get b ''deadline'' = get x ''deadline''"
    unfolding toggle_body [OF d] by (simp add: get_def)
qed

lemma demo_milk_run:
  "run demo_env milk_world [] =
     (initial_app\<lparr>tasks := [milk_task]\<rparr>,
      \<lparr>world = signed_in [reply 200 ''OK'' [], reply 200 ''OK'' (stringify (JArr [JObj done_task]))],
       netlog = [(\<lparr>url = API_URL @ ''/tasks'', http_method = ''GET'',
                   headers = [(''Authorization'', ''jwt''), (''Content-Type'', ''application/json'')],
                   body = None\<rparr>,
                  reply 200 ''OK'' (stringify (JArr [JObj milk_task])))]\<rparr>)"
  by code_simp

lemma demo_done_run:
  "run demo_env done_world [] =
     (initial_app\<lparr>tasks := [done_task]\<rparr>,
      \<lparr>world = signed_in [reply 200 ''OK'' [], reply 200 ''OK'' (stringify (JArr [JObj milk_task]))],
       netlog = [(\<lparr>url = API_URL @ ''/tasks'', http_method = ''GET'',
                   headers = [(''Authorization'', ''jwt''), (''Content-Type'', ''application/json'')],
                   body = None\<rparr>,
                  reply 200 ''OK'' (stringify (JArr [JObj done_task])))]\<rparr>)"
  by code_simp

lemma milk_deadline: "get milk_task ''deadline'' = JStr ''2024-03-31T01:30:00.000Z''"
  by (simp add: milk_task_def get_def)

lemma iso_string_milk: "iso_string 1711848600000 = ''2024-03-31T01:30:00.000Z''"
  by code_simp

theorem wire_deadline_unchanged_witness:
  "parseDateForAPI demo_env (JStr ''2024-03-31T01:30:00.000Z'')
     = Inr (JStr ''2024-03-31T01:30:00.000Z'')
   \<and> (\<exists>b. update_body demo_env (get milk_task ''taskId'') (toggle_patch milk_task) = Inr b
         \<and> get b ''deadline'' = JStr ''2024-03-31T01:30:00.000Z'')"
  using wire_deadline_unchanged [of 1711848600000 demo_env milk_task milk_world "[]"]
  by (simp add: demo_milk_run milk_deadline iso_string_milk)
section \<open>Toggle-complete\<close>

lemma loadTasks_log_extends: "\<exists>rest. netlog (snd (loadTasks env (st, s))) = netlog s @ rest"
proof -
  obtain x s1 where call: "apiCall env ''/tasks'' ''GET'' JNull s = (x, s1)"
    by (cases "apiCall env ''/tasks'' ''GET'' JNull s")
  have "snd (loadTasks env (st, s)) = s1"
    using call by (simp add: loadTasks_def Let_def split: sum.splits)
  moreover have "\<exists>rest. netlog s1 = netlog s @ rest"
    using apiCall_log [OF call] by auto
  ultimately show ?thesis by simp
qed

lemma updateTask_request:
  assumes "update_body env taskId patch = Inr b" and "getIdToken env s = (Inr token, s1)"
  shows "\<exists>r rest. netlog (snd (updateTask env taskId patch (st, s))) =
    netlog s @ (\<lparr>url = API_URL @ ''/tasks/'' @ to_string env taskId, http_method = ''PUT'',
                 headers = [(''Authorization'', token), (''Content-Type'', ''application/json'')],
                 body = Some (JSON_stringify env (JObj b))\<rparr>, r) # rest"
proof -
  define req where "req = \<lparr>url = API_URL @ ''/tasks/'' @ to_string env taskId, http_method = ''PUT'',
      headers = [(''Authorization'', token), (''Content-Type'', ''application/json'')],
      body = Some (JSON_stringify env (JObj b))\<rparr>"
  obtain r w' where f: "fetch env (world s1) req = (r, w')"
    by (cases "fetch env (world s1) req")
  define s2 where "s2 = \<lparr>world = w', netlog = netlog s1 @ [(req, r)]\<rparr>"
  have log1: "netlog s1 = netlog s"
    using assms(2) by (rule getIdToken_netlog)
  have call: "apiCall env (''/tasks/'' @ to_string env taskId) ''PUT'' (JObj b) s
      = ((case r of Inl e \<Rightarrow> Inl e | Inr res \<Rightarrow> apiCall_response env res), s2)"
    using assms(2) f unfolding req_def s2_def
    by (simp add: apiCall_def fetch_logged_def split: sum.splits)
  show ?thesis
  proof (cases "case r of Inl e \<Rightarrow> Inl e | Inr res \<Rightarrow> apiCall_response env res")
    case (Inl e)
    then have "snd (updateTask env taskId patch (st, s)) = s2"
      using assms(1) call by (simp add: updateTask_def)
    then show ?thesis
      by (simp add: s2_def log1 req_def)
  next
    case (Inr v)
    then have "snd (updateTask env taskId patch (st, s))
        = snd (loadTasks env (st\<lparr>error := None, editing := JNull, form := emptyTask\<rparr>, s2))"
      using assms(1) call by (simp add: updateTask_def)
    moreover obtain rest where "netlog (snd (loadTasks env
        (st\<lparr>error := None, editing := JNull, form := emptyTask\<rparr>, s2))) = netlog s2 @ rest"
      using loadTasks_log_extends by blast
    ultimately show ?thesis
      by (simp add: s2_def log1 req_def)
  qed
qed

text \<open>
  Claim C8.  When a token is available, toggle-complete on a task of the collection
  hands to \<^verbatim>\<open>fetch\<close>, as its next request, a PUT of \<^verbatim>\<open>/tasks/{taskId}\<close> whose body
  is the JSON of the full record: the task's id, its title, its description (the
  empty string when falsy), its deadline as stored, and the status \<open>Pending\<close> when the
  task's status is \<open>Completed\<close> and \<open>Completed\<close> otherwise.
\<close>

theorem toggle_issues_full_put:
  assumes "x \<in> set (tasks (fst (run env w acts)))"
    and "getIdToken env (snd (run env w acts)) = (Inr token, s1)"
  shows "\<exists>r rest. netlog (snd (toggle_click env x (run env w acts))) =
    netlog (snd (run env w acts))
    @ (\<lparr>url = API_URL @ ''/tasks/'' @ to_string env (get x ''taskId''), http_method = ''PUT'',
         headers = [(''Authorization'', token), (''Content-Type'', ''application/json'')],
         body = Some (JSON_stringify env (JObj
           [(''taskId'', get x ''taskId''),
            (''title'', get x ''title''),
            (''description'', js_or env (get x ''description'') (JStr [])),
            (''deadline'', get x ''deadline''),
            (''status'', if get x ''status'' = JStr ''Completed'' then JStr ''Pending''
                         else JStr ''Completed'')]))\<rparr>, r) # rest"
proof -
  from reachable_task_normalized [OF assms(1)]
  obtain item where "normalize_item env item = Inr x" ..
  then have d: "get x ''deadline'' = JNull
      \<or> (\<exists>u. \<bar>u\<bar> \<le> 8640000000000000 \<and> get x ''deadline'' = JStr (iso_string u))"
    by (rule normalize_item_deadline)
  obtain st s where c: "run env w acts = (st, s)"
    by (cases "run env w acts")
  show ?thesis
    using updateTask_request [OF toggle_body [OF d], of env s token s1 st] assms(2)
    by (simp add: c toggle_click_def)
qed

lemma milk_fields:
  "get milk_task ''taskId'' = JStr ''t1''" "get milk_task ''title'' = JStr ''Buy milk''"
  "get milk_task ''description'' = JStr ''2 l''" "get milk_task ''status'' = JStr ''Pending''"
  by (simp_all add: milk_task_def get_def)

lemma done_fields:
  "get done_task ''taskId'' = JNum 1" "get done_task ''title'' = JUndefined"
  "get done_task ''description'' = JUndefined" "get done_task ''status'' = JStr ''Completed''"
  "get done_task ''deadline'' = JNull"
  by (simp_all add: done_task_def get_def)

lemma int_string_1: "int_string 1 = ''1''"
  by code_simp

theorem toggle_issues_full_put_witness:
  "(\<exists>r rest. netlog (snd (toggle_click demo_env milk_task (run demo_env milk_world []))) =
      netlog (snd (run demo_env milk_world []))
      @ (\<lparr>url = API_URL @ ''/tasks/t1'', http_method = ''PUT'',
           headers = [(''Authorization'', ''jwt''), (''Content-Type'', ''application/json'')],
           body = Some (stringify (JObj
             [(''taskId'', JStr ''t1''), (''title'', JStr ''Buy milk''),
              (''description'', JStr ''2 l''),
              (''deadline'', JStr ''2024-03-31T01:30:00.000Z''),
              (''status'', JStr ''Completed'')]))\<rparr>, r) # rest)
   \<and> (\<exists>r rest. netlog (snd (toggle_click demo_env done_task (run demo_env done_world []))) =
      netlog (snd (run demo_env done_world []))
      @ (\<lparr>url = API_URL @ ''/tasks/1'', http_method = ''PUT'',
           headers = [(''Authorization'', ''jwt''), (''Content-Type'', ''application/json'')],
           body = Some (stringify (JObj
             [(''taskId'', JNum 1), (''title'', JUndefined), (''description'', JStr []),
              (''deadline'', JNull), (''status'', JStr ''Pending'')]))\<rparr>, r) # rest)"
proof -
  have m1: "milk_task \<in> set (tasks (fst (run demo_env milk_world [])))"
    by (simp add: demo_milk_run)
  have m2: "getIdToken demo_env (snd (run demo_env milk_world []))
      = (Inr ''jwt'', snd (run demo_env milk_world []))"
    by (simp add: demo_milk_run demo_getIdToken)
  have d1: "done_task \<in> set (tasks (fst (run demo_env done_world [])))"
    by (simp add: demo_done_run)
  have d2: "getIdToken demo_env (snd (run demo_env done_world []))
      = (Inr ''jwt'', snd (run demo_env done_world []))"
    by (simp add: demo_done_run demo_getIdToken)
  show ?thesis
    using toggle_issues_full_put [OF m1 m2] toggle_issues_full_put [OF d1 d2]
    by (simp add: milk_fields milk_deadline done_fields js_or_def demo_env_fields int_string_1
        del: stringify.simps)
qed
section \<open>Sentinels of the two converters\<close>

lemma digits_numeral:
  "digits (numeral k) n = digits (pred_numeral k) (n div 10) @ [digit_char (n mod 10)]"
  by (metis digits.simps(2) numeral_eq_Suc)

lemma digit_chars:
  "digit_char 0 = CHR ''0''" "digit_char 1 = CHR ''1''" "digit_char 2 = CHR ''2''"
  "digit_char 3 = CHR ''3''" "digit_char 4 = CHR ''4''" "digit_char 5 = CHR ''5''"
  "digit_char 6 = CHR ''6''" "digit_char 7 = CHR ''7''" "digit_char 8 = CHR ''8''"
  "digit_char 9 = CHR ''9''" "digit_char (Suc 0) = CHR ''1''"
  by (simp_all add: digit_char_def char_of_eq_iff)

lemma iso_string_max: "iso_string 8640000000000000 = ''+275760-09-13T00:00:00.000Z''"
  by (simp add: iso_string_def year_string_def YearFromTime_def YearFromDay_def Day_def
      msPerDay_def DayFromYear_def MonthFromTime_def DayWithinYear_def InLeapYear_def
      DaysInYear_def DateFromTime_def HourFromTime_def MinFromTime_def SecFromTime_def
      msFromTime_def msPerHour_def msPerMinute_def msPerSecond_def Let_def
      digits_numeral digit_chars)

lemma demo_max_date:
  "Date_new demo_env (JStr ''+275760-09-13T00:00:00.000Z'') = Some 8640000000000000"
  "getTimezoneOffset demo_env 8640000000000000 = - 120"
proof -
  show "Date_new demo_env (JStr ''+275760-09-13T00:00:00.000Z'') = Some 8640000000000000"
    using Date_new_iso_string [of 8640000000000000 demo_env] by (simp add: iso_string_max)
  show "getTimezoneOffset demo_env 8640000000000000 = - 120"
    by (simp add: getTimezoneOffset_def trunc_div_def LocalTime_def demo_env_fields
        demo_LocalTZA_def msPerMinute_def)
qed




text \<open>
  Outside the inputs of the claim, \<^verbatim>\<open>formatDateForInput\<close> throws exactly when the time
  shifted by the offset leaves the range of Date: \<^verbatim>\<open>date\<close> is valid, \<^verbatim>\<open>local\<close> is not,
  and \<^verbatim>\<open>local.toISOString()\<close> throws a RangeError.  The largest valid timestamp does,
  in a zone east of Greenwich.
\<close>

lemma formatDateForInput_throws_iff:
  "formatDateForInput env v = Inl e \<longleftrightarrow>
     truthy env v \<and> e = Error (invalid_time_message env)
     \<and> (\<exists>t. Date_new env v = Some t
            \<and> \<bar>t - getTimezoneOffset env t * 60 * 1000\<bar> > 8640000000000000)"
  by (auto simp: formatDateForInput_eq split: option.splits if_splits)

lemma formatDateForInput_past_range:
  "formatDateForInput demo_env (JStr ''+275760-09-13T00:00:00.000Z'')
     = Inl (Error ''Invalid time value'')"
  by (simp add: formatDateForInput_eq demo_max_date demo_env_fields)

section \<open>A deadline that cannot be parsed\<close>

lemma normalize_item_unparsable:
  assumes "truthy env (get kvs ''deadline'')" and "Date_new env (get kvs ''deadline'') = None"
  shows "normalize_item env (JObj kvs) = Inl (Error (invalid_time_message env))"
  using assms by (simp add: normalize_item_def read_member_def toISOString_def)

text \<open>
  Claim C6 fails on the code.  A fetched list in which one task has a deadline that
  \<^verbatim>\<open>Date.parse\<close> rejects: \<^verbatim>\<open>toISOString\<close> throws inside the normalization, so the
  refresh fails, the error is shown and the collection stays as it was.
\<close>

theorem normalization_throws_on_bad_deadline:
  "normalizedItems demo_env (JArr [JObj milk_task, JObj bad_task]) = Inl (Error ''Invalid time value'')
   \<and> fst (loadTasks demo_env (initial_app\<lparr>tasks := [done_task]\<rparr>, \<lparr>world = bad_world, netlog = []\<rparr>))
       = initial_app\<lparr>tasks := [done_task], error := Some ''Invalid time value''\<rparr>"
  by code_simp
section \<open>The collection on the event loop\<close>

lemma thread_ok_load_call: "thread_ok load_call"
  by (simp add: thread_ok_def load_call_def)

lemma thread_ok_Finished: "thread_ok t \<Longrightarrow> thread_ok (t\<lparr>th_phase := Finished\<rparr>)"
  by (simp add: thread_ok_def)

lemma list_all_update: "list_all P xs \<Longrightarrow> P x \<Longrightarrow> list_all P (xs[i := x])"
  by (induction xs arbitrary: i) (auto split: nat.splits)

lemma list_all_nth: "list_all P xs \<Longrightarrow> i < length xs \<Longrightarrow> P (xs ! i)"
  by (simp add: list_all_length)

text \<open>The operations up to their first await.\<close>

lemma begin_load_fields:
  "app (begin_load c) = loadTasks_start (app c)"
  "threads (begin_load c) = threads c @ [load_call]"
  "calls (begin_load c) = calls c"
  "handled (begin_load c) = handled c"
  by (simp_all add: begin_load_def spawn_def)

lemma begin_create_fields:
  "tasks (app (begin_create env c)) = tasks (app c)"
  "calls (begin_create env c) = calls c"
  "handled (begin_create env c) = handled c"
  "list_all thread_ok (threads c) \<Longrightarrow> list_all thread_ok (threads (begin_create env c))"
  by (simp_all add: begin_create_def spawn_def Let_def thread_ok_def split: sum.splits)

lemma begin_update_fields:
  "tasks (app (begin_update env taskId patch c)) = tasks (app c)"
  "calls (begin_update env taskId patch c) = calls c"
  "handled (begin_update env taskId patch c) = handled c"
  "list_all thread_ok (threads c) \<Longrightarrow>
   list_all thread_ok (threads (begin_update env taskId patch c))"
  by (simp_all add: begin_update_def spawn_def Let_def thread_ok_def split: sum.splits)

lemma begin_remove_fields:
  "tasks (app (begin_remove env taskId c)) = tasks (app c)"
  "calls (begin_remove env taskId c) = calls c"
  "handled (begin_remove env taskId c) = handled c"
  "list_all thread_ok (threads c) \<Longrightarrow> list_all thread_ok (threads (begin_remove env taskId c))"
  by (simp_all add: begin_remove_def spawn_def thread_ok_def)

lemma user_fields:
  "tasks (app (user env c a)) = tasks (app c)"
  "calls (user env c a) = calls c"
  "handled (user env c a) = handled c"
  "list_all thread_ok (threads c) \<Longrightarrow> list_all thread_ok (threads (user env c a))"
  by (cases a; simp add: begin_load_fields begin_create_fields begin_update_fields
      begin_remove_fields loadTasks_start_def thread_ok_load_call edit_click_tasks
      cancel_click_def filter_change_def field_change_def)+

text \<open>The callers after the await.\<close>

lemma resume_fields:
  "calls (resume env i result c) = calls c"
  "handled (resume env i result c) = handled c"
  by (simp_all add: resume_def finish_def reload_def split: caller.splits sum.splits)

lemma resume_tasks:
  "tasks (app (resume env i result c)) =
     (if th_caller (threads c ! i) = Load then tasks (loadTasks_resume env result (app c))
      else tasks (app c))"
  by (simp add: resume_def finish_def reload_def loadTasks_start_def
      split: caller.splits sum.splits)

lemma resume_threads:
  assumes "list_all thread_ok (threads c)" and "i < length (threads c)"
  shows "list_all thread_ok (threads (resume env i result c))"
proof -
  have "thread_ok (threads c ! i)"
    using assms by (rule list_all_nth)
  then have "thread_ok ((threads c ! i)\<lparr>th_phase := Finished\<rparr>)"
    by (rule thread_ok_Finished)
  then show ?thesis
    using assms(1)
    by (simp add: resume_def finish_def reload_def list_all_update thread_ok_load_call
        split: caller.splits sum.splits)
qed

lemma loadTasks_resume_tasks:
  "tasks (loadTasks_resume env result st) =
     (case result of
        Inl err \<Rightarrow> tasks st
      | Inr items \<Rightarrow> (case normalizedItems env items of Inl err \<Rightarrow> tasks st | Inr ts \<Rightarrow> ts))"
  by (simp add: loadTasks_resume_def split: sum.splits)

lemma listing_of_list_request:
  assumes "http_method req = ''GET''" and "url req = API_URL @ ''/tasks''"
  shows "listing_of env (req, r) =
     (case call_result env r of
        Inl err \<Rightarrow> None
      | Inr items \<Rightarrow> (case normalizedItems env items of Inl err \<Rightarrow> None | Inr ts \<Rightarrow> Some ts))"
  using assms by (simp add: listing_of_def call_result_def split: sum.splits)

text \<open>
  An answer of \<^verbatim>\<open>fetch\<close> that a thread waits for: the collection becomes the listing
  of the answer when it has one, and stays as it is otherwise.
\<close>

lemma fetch_answer_tasks:
  assumes "thread_ok (threads c ! i)" and "th_phase (threads c ! i) = AwaitResponse k req"
  shows "tasks (app (resume env i (call_result env r) (c\<lparr>calls := cs, handled := hs\<rparr>))) =
     (case listing_of env (req, r) of Some ts \<Rightarrow> ts | None \<Rightarrow> tasks (app c))"
proof (cases "th_caller (threads c ! i) = Load")
  case True
  with assms have "http_method req = ''GET''" "url req = API_URL @ ''/tasks''"
    by (simp_all add: thread_ok_def)
  then show ?thesis
    using True
    by (simp add: resume_tasks loadTasks_resume_tasks listing_of_list_request split: sum.splits)
next
  case False
  with assms have "http_method req \<noteq> ''GET''"
    by (simp add: thread_ok_def)
  then show ?thesis
    using False by (simp add: resume_tasks listing_of_other)
qed
lemma handle_mirror:
  assumes "tasks (app c) = last_listing env (handled c)" and "list_all thread_ok (threads c)"
  shows "tasks (app (handle env c e)) = last_listing env (handled (handle env c e))
    \<and> list_all thread_ok (threads (handle env c e))"
proof (cases e)
  case (User a)
  then show ?thesis using assms by (simp add: user_fields)
next
  case (SessionAnswer i r)
  show ?thesis
  proof (cases "i < length (threads c) \<and> th_phase (threads c ! i) = AwaitSession")
    case False
    then show ?thesis using assms SessionAnswer by auto
  next
    case True
    then have ok: "thread_ok (threads c ! i)"
      using assms(2) by (simp add: list_all_nth)
    show ?thesis
    proof (cases "session_token r")
      case (Inl err)
      then show ?thesis
        using assms True SessionAnswer
        by (simp add: resume_fields resume_tasks resume_threads loadTasks_resume_tasks)
    next
      case (Inr token)
      have "thread_ok ((threads c ! i)\<lparr>th_phase := AwaitResponse (length (calls c))
          (api_request env (th_path (threads c ! i)) (th_method (threads c ! i))
             (th_payload (threads c ! i)) token)\<rparr>)"
        using ok by (simp add: thread_ok_def api_request_def)
      then show ?thesis
        using assms True SessionAnswer Inr by (simp add: Let_def list_all_update)
    qed
  qed
next
  case (FetchAnswer i r)
  show ?thesis
  proof (cases "i < length (threads c)")
    case False
    then show ?thesis using assms FetchAnswer by simp
  next
    case True
    then have ok: "thread_ok (threads c ! i)"
      using assms(2) by (simp add: list_all_nth)
    show ?thesis
    proof (cases "th_phase (threads c ! i)")
      case (AwaitResponse k req)
      have "list_all thread_ok (threads (resume env i (call_result env r)
          (c\<lparr>calls := (calls c)[k := (req, Some r)], handled := handled c @ [(req, r)]\<rparr>)))"
        using assms(2) True by (intro resume_threads) simp_all
      then show ?thesis
        using assms(1) True FetchAnswer AwaitResponse
        by (simp add: resume_fields last_listing_snoc
            fetch_answer_tasks [OF ok AwaitResponse, of env r] split: option.splits)
    qed (use assms True FetchAnswer in simp_all)
  qed
qed

lemma start_mirror:
  "tasks (app start) = last_listing env (handled start) \<and> list_all thread_ok (threads start)"
  by (simp add: start_def begin_load_fields loadTasks_start_def initial_app_def last_listing_def
      thread_ok_load_call)

lemma foldl_handle_mirror:
  "tasks (app c) = last_listing env (handled c) \<and> list_all thread_ok (threads c) \<Longrightarrow>
   tasks (app (foldl (handle env) c evs)) = last_listing env (handled (foldl (handle env) c evs))
   \<and> list_all thread_ok (threads (foldl (handle env) c evs))"
  by (induction evs arbitrary: c) (simp_all add: handle_mirror)

lemma exec_mirror:
  "tasks (app (exec env evs)) = last_listing env (handled (exec env evs))"
  "list_all thread_ok (threads (exec env evs))"
  using foldl_handle_mirror [OF start_mirror, of env evs] by (simp_all add: exec_def)

text \<open>Where a new collection comes from.\<close>

lemma handle_tasks_source:
  assumes "list_all thread_ok (threads c)"
  shows "tasks (app (handle env c e)) = tasks (app c)
    \<or> (\<exists>i r k req. e = FetchAnswer i r \<and> i < length (threads c)
          \<and> th_phase (threads c ! i) = AwaitResponse k req
          \<and> listing_of env (req, r) = Some (tasks (app (handle env c e))))"
proof (cases e)
  case (User a)
  then show ?thesis by (simp add: user_fields)
next
  case (SessionAnswer i r)
  then show ?thesis
    by (simp add: resume_tasks loadTasks_resume_tasks Let_def split: sum.splits)
next
  case (FetchAnswer i r)
  show ?thesis
  proof (cases "i < length (threads c)")
    case False
    then show ?thesis using FetchAnswer by simp
  next
    case True
    then have ok: "thread_ok (threads c ! i)"
      using assms by (simp add: list_all_nth)
    show ?thesis
    proof (cases "th_phase (threads c ! i)")
      case (AwaitResponse k req)
      show ?thesis
        using True FetchAnswer AwaitResponse fetch_answer_tasks [OF ok AwaitResponse, of env r]
        by (cases "listing_of env (req, r)") simp_all
    qed (use True FetchAnswer in simp_all)
  qed
qed

text \<open>
  Claim C7, as the code has it.  However the user's actions and the answers to the
  pending calls are interleaved, the \<open>tasks\<close> of the component are the normalized
  result of the successful list fetch whose answer was handled last, and the empty
  initial collection before the first one.  An event either leaves the collection as
  it is or is the answer to a pending list fetch, and then the collection is the
  listing of that answer: no action inserts, removes or edits a task locally.  When
  every action is run to its end before the next one, the answers are handled in the
  order of the calls, and the collection is the result of the last successful call.
\<close>

theorem tasks_mirror_last_handled_listing:
  "tasks (app (exec env evs)) = last_listing env (handled (exec env evs))
   \<and> (tasks (app (handle env (exec env evs) e)) = tasks (app (exec env evs))
      \<or> (\<exists>i r k req. e = FetchAnswer i r \<and> i < length (threads (exec env evs))
            \<and> th_phase (threads (exec env evs) ! i) = AwaitResponse k req
            \<and> listing_of env (req, r) = Some (tasks (app (handle env (exec env evs) e)))))
   \<and> tasks (fst (run env w acts)) = last_listing env (netlog (snd (run env w acts)))"
proof -
  have "tasks (app (exec env evs)) = last_listing env (handled (exec env evs))"
    by (rule exec_mirror)
  moreover have "tasks (app (handle env (exec env evs) e)) = tasks (app (exec env evs))
      \<or> (\<exists>i r k req. e = FetchAnswer i r \<and> i < length (threads (exec env evs))
            \<and> th_phase (threads (exec env evs) ! i) = AwaitResponse k req
            \<and> listing_of env (req, r) = Some (tasks (app (handle env (exec env evs) e))))"
    by (rule handle_tasks_source) (rule exec_mirror)
  moreover have "tasks (fst (run env w acts)) = last_listing env (netlog (snd (run env w acts)))"
    by (rule run_mirror)
  ultimately show ?thesis by blast
qed

text \<open>
  Two refreshes in flight, answered in the other order.  The first call is answered
  with the list of the task \<open>milk_task\<close>, the second, made after it, with the list of
  \<open>done_task\<close>; the answer to the second call is handled first.  The collection ends
  as the result of the first call, while the last successful call returned the other
  list.
\<close>

theorem stale_listing_counterexample:
  "answered (calls (exec demo_env overlapping_refreshes))
     = [(api_request demo_env ''/tasks'' ''GET'' JNull ''jwt'',
         reply 200 ''OK'' (stringify (JArr [JObj milk_task]))),
        (api_request demo_env ''/tasks'' ''GET'' JNull ''jwt'',
         reply 200 ''OK'' (stringify (JArr [JObj done_task])))]
   \<and> last_listing demo_env (answered (calls (exec demo_env overlapping_refreshes))) = [done_task]
   \<and> tasks (app (exec demo_env overlapping_refreshes)) = [milk_task]
   \<and> list_all (\<lambda>t. th_phase t = Finished) (threads (exec demo_env overlapping_refreshes))"
  by code_simp
section \<open>Refresh\<close>

text \<open>The normalization of one fetched task, and of the fetched list.\<close>

lemma other_properties_set_prop:
  "other_properties (set_prop kvs ''deadline'' v) = other_properties kvs"
  by (induction kvs) (auto simp: other_properties_def)

lemma read_member_deadline:
  "item \<noteq> JNull \<Longrightarrow> item \<noteq> JUndefined \<Longrightarrow>
   read_member env item ''deadline'' = Inr (fetched_deadline item)"
  by (cases item) (simp_all add: read_member_def fetched_deadline_def)

lemma normalize_item_normalizable:
  assumes "normalizable env item"
  shows "\<exists>t. normalize_item env item = Inr t \<and> date_normalized env item t"
proof -
  have d: "read_member env item ''deadline'' = Inr (fetched_deadline item)"
    using assms by (intro read_member_deadline) (simp_all add: normalizable_def)
  show ?thesis
  proof (cases "truthy env (fetched_deadline item)")
    case False
    then show ?thesis
      by (simp add: normalize_item_def d date_normalized_def other_properties_set_prop
          get_set_prop_same)
  next
    case True
    with assms obtain u where "Date_new env (fetched_deadline item) = Some u"
      by (auto simp: normalizable_def)
    with True show ?thesis
      by (simp add: normalize_item_def d date_normalized_def other_properties_set_prop
          get_set_prop_same toISOString_def)
  qed
qed

lemma normalize_item_other:
  assumes "\<not> normalizable env item"
  shows "\<exists>e. normalize_item env item = Inl e"
proof (cases "item = JNull \<or> item = JUndefined")
  case True
  then show ?thesis by (auto simp: normalize_item_def read_member_def)
next
  case False
  then have d: "read_member env item ''deadline'' = Inr (fetched_deadline item)"
    by (intro read_member_deadline) simp_all
  from False assms have "truthy env (fetched_deadline item)"
    and "Date_new env (fetched_deadline item) = None"
    by (auto simp: normalizable_def)
  then show ?thesis
    by (simp add: normalize_item_def d toISOString_def)
qed

lemma map_throwing_normalizable:
  "list_all (normalizable env) xs \<Longrightarrow>
   \<exists>ts. map_throwing (normalize_item env) xs = Inr ts \<and> list_all2 (date_normalized env) xs ts"
proof (induction xs)
  case Nil
  then show ?case by simp
next
  case (Cons x xs)
  from Cons.prems obtain t where t: "normalize_item env x = Inr t" "date_normalized env x t"
    using normalize_item_normalizable [of env x] by auto
  from Cons obtain ts where ts: "map_throwing (normalize_item env) xs = Inr ts"
    "list_all2 (date_normalized env) xs ts"
    by auto
  have "map_throwing (normalize_item env) (x # xs) = Inr (t # ts)"
    by (simp add: t ts)
  moreover have "list_all2 (date_normalized env) (x # xs) (t # ts)"
    by (simp add: t ts)
  ultimately show ?case by blast
qed

lemma map_throwing_other:
  "\<not> list_all (normalizable env) xs \<Longrightarrow> \<exists>e. map_throwing (normalize_item env) xs = Inl e"
proof (induction xs)
  case Nil
  then show ?case by simp
next
  case (Cons x xs)
  show ?case
  proof (cases "normalizable env x")
    case False
    then obtain e where "normalize_item env x = Inl e"
      using normalize_item_other by blast
    then show ?thesis by simp
  next
    case True
    with Cons obtain e where "map_throwing (normalize_item env) xs = Inl e"
      by auto
    then show ?thesis by (simp split: sum.splits)
  qed
qed

lemma normalizedItems_fetched_list:
  "normalizedItems env items = map_throwing (normalize_item env) (fetched_list items)"
  by (cases items) (simp_all add: normalizedItems_def fetched_list_def)

lemma normalizedItems_cases:
  "(list_all (normalizable env) (fetched_list items)
      \<and> (\<exists>ts. normalizedItems env items = Inr ts
            \<and> list_all2 (date_normalized env) (fetched_list items) ts))
   \<or> (\<not> list_all (normalizable env) (fetched_list items)
        \<and> (\<exists>e. normalizedItems env items = Inl e))"
  using map_throwing_normalizable [of env "fetched_list items"]
    map_throwing_other [of env "fetched_list items"]
  by (auto simp: normalizedItems_fetched_list)

text \<open>The functions that run a call to its end are the ones above, cut at the awaits.\<close>

lemma getIdToken_session_token:
  "getIdToken env s =
     (case fetchAuthSession env (world s) of (a, w) \<Rightarrow> (session_token a, s\<lparr>world := w\<rparr>))"
  by (auto simp: getIdToken_def session_token_def id_token_string_def
      split: prod.splits sum.splits option.splits id_token.splits)

lemma apiCall_awaits:
  "apiCall env path meth payload s =
     (case fetchAuthSession env (world s) of
        (a, w) \<Rightarrow>
          (case session_token a of
             Inl e \<Rightarrow> (Inl e, s\<lparr>world := w\<rparr>)
           | Inr token \<Rightarrow>
               (case fetch env w (api_request env path meth payload token) of
                  (r, w') \<Rightarrow>
                    (call_result env r,
                     \<lparr>world = w',
                      netlog = netlog s @ [(api_request env path meth payload token, r)]\<rparr>))))"
  by (simp add: apiCall_def getIdToken_session_token fetch_logged_def api_request_def
      call_result_def split: prod.splits sum.splits)

lemma loadTasks_awaits:
  "loadTasks env (st, s) =
     (case apiCall env ''/tasks'' ''GET'' JNull s of
        (result, s') \<Rightarrow> (loadTasks_resume env result (loadTasks_start st), s'))"
  by (simp add: loadTasks_def loadTasks_resume_def Let_def split: prod.splits sum.splits)

text \<open>A refresh on the event loop.\<close>

lemma refresh_start:
  "app (handle env c (User Refresh)) = (app c)\<lparr>loading := True, error := None\<rparr>"
  "threads (handle env c (User Refresh)) = threads c @ [load_call]"
  "calls (handle env c (User Refresh)) = calls c"
  by (simp_all add: begin_load_fields loadTasks_start_def)

lemma resume_Load:
  "th_caller (threads c ! i) = Load \<Longrightarrow>
   app (resume env i result c) = loadTasks_resume env result (app c)"
  by (simp add: resume_def finish_def)

text \<open>
  Claim C5.  Refresh sets \<open>loading\<close> and clears \<open>error\<close> before anything is asked
  of the session provider or the server, and leaves the rest of the component as it
  is.  The call of a refresh that waits ends in one of these ways.  It fails, for
  want of a token, because \<^verbatim>\<open>fetch\<close> rejects, or with the error of \<^verbatim>\<open>apiCall\<close>:
  \<open>error\<close> becomes the failure's body if it has one and its message otherwise,
  \<open>tasks\<close> stay, and \<open>loading\<close> is false.  It succeeds and every fetched task can be
  normalized: \<open>tasks\<close> become the date-normalized fetched list, and \<open>loading\<close> is
  false.  Or the normalization throws: that is a failure like the others.
\<close>

theorem refresh_outcomes:
  assumes "i < length (threads c)" and "th_caller (threads c ! i) = Load"
  shows "app (handle env c0 (User Refresh)) = (app c0)\<lparr>loading := True, error := None\<rparr>
    \<and> calls (handle env c0 (User Refresh)) = calls c0
    \<and> (th_phase (threads c ! i) = AwaitSession \<and> session_token a = Inl err \<longrightarrow>
         app (handle env c (SessionAnswer i a))
           = (app c)\<lparr>error := Some (failure_text err), loading := False\<rparr>)
    \<and> (th_phase (threads c ! i) = AwaitSession \<and> session_token a = Inr token \<longrightarrow>
         app (handle env c (SessionAnswer i a)) = app c)
    \<and> (th_phase (threads c ! i) = AwaitResponse k req \<and> call_result env r = Inl err \<longrightarrow>
         app (handle env c (FetchAnswer i r))
           = (app c)\<lparr>error := Some (failure_text err), loading := False\<rparr>)
    \<and> (th_phase (threads c ! i) = AwaitResponse k req \<and> call_result env r = Inr items
         \<and> list_all (normalizable env) (fetched_list items) \<longrightarrow>
         (\<exists>ts. list_all2 (date_normalized env) (fetched_list items) ts
            \<and> app (handle env c (FetchAnswer i r)) = (app c)\<lparr>tasks := ts, loading := False\<rparr>))
    \<and> (th_phase (threads c ! i) = AwaitResponse k req \<and> call_result env r = Inr items
         \<and> \<not> list_all (normalizable env) (fetched_list items) \<longrightarrow>
         (\<exists>e. normalizedItems env items = Inl e
            \<and> app (handle env c (FetchAnswer i r))
                = (app c)\<lparr>error := Some (failure_text e), loading := False\<rparr>))"
proof -
  note load = resume_Load [OF assms(2)]
  have "th_phase (threads c ! i) = AwaitSession \<and> session_token a = Inl err \<longrightarrow>
      app (handle env c (SessionAnswer i a))
        = (app c)\<lparr>error := Some (failure_text err), loading := False\<rparr>"
    using assms(1) by (simp add: load loadTasks_resume_def failure_text_def err_text_def)
  moreover have "th_phase (threads c ! i) = AwaitSession \<and> session_token a = Inr token \<longrightarrow>
      app (handle env c (SessionAnswer i a)) = app c"
    using assms(1) by (simp add: Let_def)
  moreover have "th_phase (threads c ! i) = AwaitResponse k req \<and> call_result env r = Inl err \<longrightarrow>
      app (handle env c (FetchAnswer i r))
        = (app c)\<lparr>error := Some (failure_text err), loading := False\<rparr>"
    using assms by (simp add: resume_def finish_def loadTasks_resume_def failure_text_def
        err_text_def)
  moreover have "th_phase (threads c ! i) = AwaitResponse k req \<and> call_result env r = Inr items
       \<and> list_all (normalizable env) (fetched_list items) \<longrightarrow>
       (\<exists>ts. list_all2 (date_normalized env) (fetched_list items) ts
          \<and> app (handle env c (FetchAnswer i r)) = (app c)\<lparr>tasks := ts, loading := False\<rparr>)"
    using assms normalizedItems_cases [of env items]
    by (auto simp: resume_def finish_def loadTasks_resume_def)
  moreover have "th_phase (threads c ! i) = AwaitResponse k req \<and> call_result env r = Inr items
       \<and> \<not> list_all (normalizable env) (fetched_list items) \<longrightarrow>
       (\<exists>e. normalizedItems env items = Inl e
          \<and> app (handle env c (FetchAnswer i r))
              = (app c)\<lparr>error := Some (failure_text e), loading := False\<rparr>)"
    using assms normalizedItems_cases [of env items]
    by (auto simp: resume_def finish_def loadTasks_resume_def failure_text_def err_text_def)
  ultimately show ?thesis
    using refresh_start(1,3) [of env c0] by blast
qed

lemma demo_waiting_refresh:
  "1 < length (threads waiting_refresh)"
  "th_caller (threads waiting_refresh ! 1) = Load"
  "th_phase (threads waiting_refresh ! 1)
     = AwaitResponse 1 (api_request demo_env ''/tasks'' ''GET'' JNull ''jwt'')"
  "app waiting_refresh = initial_app\<lparr>tasks := [milk_task], loading := True\<rparr>"
  by code_simp+

lemma demo_failed_refresh:
  "app failed_refresh = initial_app\<lparr>error := Some ''Failed to fetch''\<rparr>"
  by code_simp

lemma demo_answers:
  "call_result demo_env (reply 403 ''Forbidden'' (stringify forbidden_doc))
     = Inl \<lparr>message = ''API error'', err_status = Some 403,
            err_body = Some (stringify forbidden_doc)\<rparr>"
  "call_result demo_env (reply 200 ''OK'' (stringify (JArr [JObj tax_task])))
     = Inr (JArr [JObj tax_task])"
  "list_all (normalizable demo_env) (fetched_list (JArr [JObj tax_task]))"
  "fetched_list (JArr [JObj tax_task]) = [JObj tax_task]"
  by code_simp+

lemma demo_tax_refresh:
  "app (handle demo_env waiting_refresh
          (FetchAnswer 1 (reply 200 ''OK'' (stringify (JArr [JObj tax_task])))))
     = initial_app\<lparr>tasks := [tax_task_iso]\<rparr>"
  by code_simp

theorem refresh_outcomes_witness:
  "app failed_refresh = initial_app\<lparr>error := Some ''Failed to fetch''\<rparr>
   \<and> app (handle demo_env failed_refresh (User Refresh)) = initial_app\<lparr>loading := True\<rparr>
   \<and> app waiting_refresh = initial_app\<lparr>tasks := [milk_task], loading := True\<rparr>
   \<and> app (handle demo_env waiting_refresh
            (FetchAnswer 1 (reply 403 ''Forbidden'' (stringify forbidden_doc))))
       = initial_app\<lparr>tasks := [milk_task], error := Some (stringify forbidden_doc)\<rparr>
   \<and> (\<exists>ts. list_all2 (date_normalized demo_env) [JObj tax_task] ts
          \<and> app (handle demo_env waiting_refresh
                   (FetchAnswer 1 (reply 200 ''OK'' (stringify (JArr [JObj tax_task])))))
              = initial_app\<lparr>tasks := ts\<rparr>)
   \<and> app (handle demo_env waiting_refresh
            (FetchAnswer 1 (reply 200 ''OK'' (stringify (JArr [JObj tax_task])))))
       = initial_app\<lparr>tasks := [tax_task_iso]\<rparr>"
  using refresh_outcomes [OF demo_waiting_refresh(1,2), where env = demo_env
      and ?c0.0 = failed_refresh and k = 1
      and req = "api_request demo_env ''/tasks'' ''GET'' JNull ''jwt''"
      and r = "reply 403 ''Forbidden'' (stringify forbidden_doc)"
      and err = "\<lparr>message = ''API error'', err_status = Some 403,
                   err_body = Some (stringify forbidden_doc)\<rparr>"]
    refresh_outcomes [OF demo_waiting_refresh(1,2), where env = demo_env
      and ?c0.0 = failed_refresh and k = 1
      and req = "api_request demo_env ''/tasks'' ''GET'' JNull ''jwt''"
      and r = "reply 200 ''OK'' (stringify (JArr [JObj tax_task]))"
      and items = "JArr [JObj tax_task]"]
  by (simp add: demo_waiting_refresh(3,4) demo_failed_refresh demo_answers demo_tax_refresh
      failure_text_def initial_app_def del: stringify.simps handle.simps One_nat_def)
section \<open>Runs are executions\<close>

text \<open>
  A run of the functions that run every call to its end is an execution on the event
  loop: the one in which every call is answered before the next event.
\<close>

lemma resume_phase:
  assumes "i < length (threads c)"
  shows "resume env i result (c\<lparr>threads := (threads c)[i := (threads c ! i)\<lparr>th_phase := p\<rparr>]\<rparr>)
    = resume env i result c"
  using assms
  by (simp add: resume_def finish_def reload_def split: caller.splits sum.splits)

lemma answered_entries_snoc:
  "(map (\<lambda>e. (fst e, Some (snd e))) log @ [(req, None)])[length log := (req, Some r)]
     = map (\<lambda>e. (fst e, Some (snd e))) (log @ [(req, r)])"
  using list_update_length [of "map (\<lambda>e. (fst e, Some (snd e))) log" "(req, None)" "[]" "(req, Some r)"]
  by simp

text \<open>One call of \<^verbatim>\<open>apiCall\<close>: the answer of the session provider, then that of \<^verbatim>\<open>fetch\<close>.\<close>

lemma api_events:
  assumes i: "i < length (threads c)"
    and ph: "th_phase (threads c ! i) = AwaitSession"
    and args: "th_path (threads c ! i) = path" "th_method (threads c ! i) = meth"
      "th_payload (threads c ! i) = payload"
    and logs: "handled c = netlog s" "calls c = map (\<lambda>e. (fst e, Some (snd e))) (netlog s)"
    and call: "apiCall env path meth payload s = (result, s')"
  shows "\<exists>evs. foldl (handle env) c evs
      = resume env i result
          (c\<lparr>calls := map (\<lambda>e. (fst e, Some (snd e))) (netlog s'), handled := netlog s'\<rparr>)"
proof -
  obtain a w where a: "fetchAuthSession env (world s) = (a, w)"
    by (cases "fetchAuthSession env (world s)")
  show ?thesis
  proof (cases "session_token a")
    case (Inl e)
    with call a have r: "result = Inl e" "netlog s' = netlog s"
      by (auto simp: apiCall_awaits)
    have "c\<lparr>calls := map (\<lambda>e. (fst e, Some (snd e))) (netlog s'), handled := netlog s'\<rparr> = c"
      using logs r(2) by simp
    moreover have "foldl (handle env) c [SessionAnswer i a] = resume env i (Inl e) c"
      using i ph Inl by simp
    ultimately show ?thesis
      unfolding r(1) by metis
  next
    case (Inr token)
    define req where "req = api_request env path meth payload token"
    obtain r w' where f: "fetch env w req = (r, w')"
      by (cases "fetch env w req")
    from call a Inr f have res: "result = call_result env r" "netlog s' = netlog s @ [(req, r)]"
      by (auto simp: apiCall_awaits req_def)
    define c1 where "c1 = handle env c (SessionAnswer i a)"
    have c1: "c1 = c\<lparr>threads := (threads c)[i := (threads c ! i)\<lparr>th_phase :=
        AwaitResponse (length (calls c)) req\<rparr>], calls := calls c @ [(req, None)]\<rparr>"
      using i ph Inr args by (simp add: c1_def Let_def req_def)
    have len: "length (calls c) = length (netlog s)"
      using logs(2) by simp
    have "handle env c1 (FetchAnswer i r)
        = resume env i (call_result env r)
            (c1\<lparr>calls := (calls c1)[length (calls c) := (req, Some r)],
                handled := handled c1 @ [(req, r)]\<rparr>)"
      using i by (simp add: c1)
    also have "c1\<lparr>calls := (calls c1)[length (calls c) := (req, Some r)],
                handled := handled c1 @ [(req, r)]\<rparr>
        = (c\<lparr>calls := map (\<lambda>e. (fst e, Some (snd e))) (netlog s'), handled := netlog s'\<rparr>)
            \<lparr>threads := (threads c)[i := (threads c ! i)\<lparr>th_phase :=
               AwaitResponse (length (calls c)) req\<rparr>]\<rparr>"
      using logs by (simp add: c1 res(2) len answered_entries_snoc del: map_append)
    also have "resume env i (call_result env r) \<dots>
        = resume env i (call_result env r)
            (c\<lparr>calls := map (\<lambda>e. (fst e, Some (snd e))) (netlog s'), handled := netlog s'\<rparr>)"
      using resume_phase [of i "c\<lparr>calls := map (\<lambda>e. (fst e, Some (snd e))) (netlog s'),
          handled := netlog s'\<rparr>" env "call_result env r"] i
      by simp
    finally have "foldl (handle env) c [SessionAnswer i a, FetchAnswer i r]
        = resume env i result
            (c\<lparr>calls := map (\<lambda>e. (fst e, Some (snd e))) (netlog s'), handled := netlog s'\<rparr>)"
      by (simp add: c1_def res(1))
    then show ?thesis by blast
  qed
qed

lemma finished_snoc:
  assumes "list_all (\<lambda>t. th_phase t = Finished) ts" and "th_phase t = Finished"
  shows "list_all (\<lambda>t. th_phase t = Finished) ((ts @ [u])[length ts := t])"
  using assms by simp

text \<open>A call of \<^verbatim>\<open>loadTasks\<close> that has just begun to wait, alone.\<close>

lemma load_events:
  assumes th: "threads c = ts @ [load_call]"
    and fin: "list_all (\<lambda>t. th_phase t = Finished) ts"
    and logs: "handled c = netlog s" "calls c = map (\<lambda>e. (fst e, Some (snd e))) (netlog s)"
    and st: "app c = loadTasks_start st"
  shows "\<exists>evs. settled (foldl (handle env) c evs) (loadTasks env (st, s))"
proof -
  obtain result s' where call: "apiCall env ''/tasks'' ''GET'' JNull s = (result, s')"
    by (cases "apiCall env ''/tasks'' ''GET'' JNull s")
  have i: "length ts < length (threads c)" and t: "threads c ! length ts = load_call"
    by (simp_all add: th)
  from api_events [OF i _ _ _ _ logs call] obtain evs where
    evs: "foldl (handle env) c evs = resume env (length ts) result
      (c\<lparr>calls := map (\<lambda>e. (fst e, Some (snd e))) (netlog s'), handled := netlog s'\<rparr>)"
    unfolding t by (auto simp: load_call_def)
  have "settled (foldl (handle env) c evs) (loadTasks env (st, s))"
    unfolding evs
    using fin
    by (simp add: settled_def resume_def finish_def t th loadTasks_awaits call st load_call_def)
  then show ?thesis ..
qed

text \<open>A call of \<^verbatim>\<open>createTask\<close>, \<^verbatim>\<open>updateTask\<close> or \<^verbatim>\<open>removeTask\<close> that has just begun to wait, alone.\<close>

lemma mutation_events:
  assumes th: "threads c = ts @ [\<lparr>th_caller = who, th_path = path, th_method = meth,
        th_payload = payload, th_phase = AwaitSession\<rparr>]"
    and who: "who \<noteq> Load"
    and fin: "list_all (\<lambda>t. th_phase t = Finished) ts"
    and logs: "handled c = netlog s" "calls c = map (\<lambda>e. (fst e, Some (snd e))) (netlog s)"
    and call: "apiCall env path meth payload s = (result, s1)"
  shows "\<exists>evs. settled (foldl (handle env) c evs)
      (case result of
         Inl err \<Rightarrow> ((app c)\<lparr>error := Some (err_text err)\<rparr>, s1)
       | Inr r \<Rightarrow>
           loadTasks env
             (case who of
                Create \<Rightarrow> (app c)\<lparr>form := emptyTask\<rparr>
              | Update \<Rightarrow> (app c)\<lparr>editing := JNull, form := emptyTask\<rparr>
              | _ \<Rightarrow> app c, s1))"
proof -
  define c' where
    "c' = c\<lparr>calls := map (\<lambda>e. (fst e, Some (snd e))) (netlog s1), handled := netlog s1\<rparr>"
  have i: "length ts < length (threads c)"
    and t: "threads c ! length ts = \<lparr>th_caller = who, th_path = path, th_method = meth,
        th_payload = payload, th_phase = AwaitSession\<rparr>"
    by (simp_all add: th)
  from api_events [OF i _ _ _ _ logs call] obtain evs where
    evs: "foldl (handle env) c evs = resume env (length ts) result c'"
    unfolding t c'_def by auto
  show ?thesis
  proof (cases result)
    case (Inl err)
    have "settled (foldl (handle env) c evs) ((app c)\<lparr>error := Some (err_text err)\<rparr>, s1)"
      unfolding evs using fin who
      by (cases who) (simp_all add: settled_def resume_def finish_def t th c'_def Inl)
    then show ?thesis using Inl by auto
  next
    case (Inr r)
    define st where "st = (case who of
        Create \<Rightarrow> (app c)\<lparr>form := emptyTask\<rparr>
      | Update \<Rightarrow> (app c)\<lparr>editing := JNull, form := emptyTask\<rparr>
      | _ \<Rightarrow> app c)"
    define c2 where "c2 = resume env (length ts) result c'"
    have "threads c2 = ts @ [load_call]" "handled c2 = netlog s1"
      "calls c2 = map (\<lambda>e. (fst e, Some (snd e))) (netlog s1)" "app c2 = loadTasks_start st"
      using who
      by (cases who; simp add: c2_def resume_def reload_def t th c'_def Inr st_def)+
    from load_events [OF this(1) fin this(2,3,4)] obtain evs2 where
      "settled (foldl (handle env) c2 evs2) (loadTasks env (st, s1))"
      by blast
    then have "settled (foldl (handle env) c (evs @ evs2)) (loadTasks env (st, s1))"
      by (simp add: evs c2_def)
    then show ?thesis
      unfolding Inr st_def by (auto simp del: foldl_append)
  qed
qed

text \<open>The four operations, from a configuration in which no call waits.\<close>

lemma loadTasks_events:
  assumes "settled c (st, s)"
  shows "\<exists>evs. settled (foldl (handle env) (begin_load c) evs) (loadTasks env (st, s))"
  using assms
  by (intro load_events [where ts = "threads c"]) (simp_all add: settled_def begin_load_fields)

lemma createTask_events:
  assumes "settled c (st, s)"
  shows "\<exists>evs. settled (foldl (handle env) (begin_create env c) evs) (createTask env (st, s))"
proof -
  obtain p where p: "create_payload env (form st) = Inr p"
    using create_payload_total by blast
  obtain result s1 where call: "apiCall env ''/tasks'' ''POST'' (JObj p) s = (result, s1)"
    by (cases "apiCall env ''/tasks'' ''POST'' (JObj p) s")
  have c: "app c = st" using assms by (simp add: settled_def)
  have "\<exists>evs. settled (foldl (handle env) (begin_create env c) evs)
      (case result of
         Inl err \<Rightarrow> ((app (begin_create env c))\<lparr>error := Some (err_text err)\<rparr>, s1)
       | Inr r \<Rightarrow>
           loadTasks env
             (case Create of
                Create \<Rightarrow> (app (begin_create env c))\<lparr>form := emptyTask\<rparr>
              | Update \<Rightarrow> (app (begin_create env c))\<lparr>editing := JNull, form := emptyTask\<rparr>
              | _ \<Rightarrow> app (begin_create env c), s1))"
    using assms
    by (intro mutation_events [where ts = "threads c" and s = s, OF _ _ _ _ _ call])
      (simp_all add: settled_def begin_create_def spawn_def p c)
  moreover have "app (begin_create env c) = st\<lparr>error := None\<rparr>"
    by (simp add: begin_create_def spawn_def p c)
  ultimately show ?thesis
    by (simp add: createTask_def p call split: sum.splits)
qed

lemma updateTask_events:
  assumes "settled c (st, s)"
  shows "\<exists>evs. settled (foldl (handle env) (begin_update env taskId patch c) evs)
      (updateTask env taskId patch (st, s))"
proof -
  obtain b where b: "update_body env taskId patch = Inr b"
    using update_body_total by blast
  obtain result s1 where
    call: "apiCall env (''/tasks/'' @ to_string env taskId) ''PUT'' (JObj b) s = (result, s1)"
    by (cases "apiCall env (''/tasks/'' @ to_string env taskId) ''PUT'' (JObj b) s")
  have c: "app c = st" using assms by (simp add: settled_def)
  have "\<exists>evs. settled (foldl (handle env) (begin_update env taskId patch c) evs)
      (case result of
         Inl err \<Rightarrow> ((app (begin_update env taskId patch c))\<lparr>error := Some (err_text err)\<rparr>, s1)
       | Inr r \<Rightarrow>
           loadTasks env
             (case Update of
                Create \<Rightarrow> (app (begin_update env taskId patch c))\<lparr>form := emptyTask\<rparr>
              | Update \<Rightarrow>
                  (app (begin_update env taskId patch c))\<lparr>editing := JNull, form := emptyTask\<rparr>
              | _ \<Rightarrow> app (begin_update env taskId patch c), s1))"
    using assms
    by (intro mutation_events [where ts = "threads c" and s = s, OF _ _ _ _ _ call])
      (simp_all add: settled_def begin_update_def spawn_def b c)
  moreover have "app (begin_update env taskId patch c) = st\<lparr>error := None\<rparr>"
    by (simp add: begin_update_def spawn_def b c)
  ultimately show ?thesis
    by (simp add: updateTask_def b call split: sum.splits del: append.simps)
qed

lemma removeTask_events:
  assumes "settled c (st, s)"
  shows "\<exists>evs. settled (foldl (handle env) (begin_remove env taskId c) evs)
      (removeTask env taskId (st, s))"
proof -
  obtain result s1 where
    call: "apiCall env (''/tasks/'' @ to_string env taskId) ''DELETE'' JNull s = (result, s1)"
    by (cases "apiCall env (''/tasks/'' @ to_string env taskId) ''DELETE'' JNull s")
  have c: "app c = st" using assms by (simp add: settled_def)
  have "\<exists>evs. settled (foldl (handle env) (begin_remove env taskId c) evs)
      (case result of
         Inl err \<Rightarrow> ((app (begin_remove env taskId c))\<lparr>error := Some (err_text err)\<rparr>, s1)
       | Inr r \<Rightarrow>
           loadTasks env
             (case Remove of
                Create \<Rightarrow> (app (begin_remove env taskId c))\<lparr>form := emptyTask\<rparr>
              | Update \<Rightarrow> (app (begin_remove env taskId c))\<lparr>editing := JNull, form := emptyTask\<rparr>
              | _ \<Rightarrow> app (begin_remove env taskId c), s1))"
    using assms
    by (intro mutation_events [where ts = "threads c" and s = s, OF _ _ _ _ _ call])
      (simp_all add: settled_def begin_remove_def spawn_def c)
  moreover have "app (begin_remove env taskId c) = st\<lparr>error := None\<rparr>"
    by (simp add: begin_remove_def spawn_def c)
  ultimately show ?thesis
    by (simp add: removeTask_def call split: sum.splits del: append.simps)
qed

lemma after_user:
  assumes "\<exists>evs. settled (foldl (handle env) (user env c a) evs) p"
  shows "\<exists>evs. settled (foldl (handle env) c evs) p"
proof -
  from assms obtain evs where "settled (foldl (handle env) (user env c a) evs) p" ..
  then have "settled (foldl (handle env) c (User a # evs)) p" by simp
  then show ?thesis ..
qed

lemma user_settled:
  assumes "settled (user env c a) p"
  shows "\<exists>evs. settled (foldl (handle env) c evs) p"
proof -
  from assms have "settled (foldl (handle env) c [User a]) p" by simp
  then show ?thesis ..
qed

lemma step_events:
  assumes "settled c p"
  shows "\<exists>evs. settled (foldl (handle env) c evs) (step env p a)"
proof -
  obtain st s where p: "p = (st, s)" by (cases p)
  note c = assms [unfolded p]
  have st: "app c = st" using c by (simp add: settled_def)
  show ?thesis
  proof (cases a)
    case Refresh
    show ?thesis
      unfolding p Refresh
      by (rule after_user [where a = Refresh]) (use loadTasks_events [OF c, of env] in simp)
  next
    case Submit
    show ?thesis
      unfolding p Submit
      by (rule after_user [where a = Submit])
        (use createTask_events [OF c, of env] updateTask_events [OF c, of env "editing st" "form st"]
          in \<open>simp add: submit_def st\<close>)
  next
    case (ToggleComplete t)
    show ?thesis
      unfolding p ToggleComplete
      by (rule after_user [where a = "ToggleComplete t"])
        (use updateTask_events [OF c, of env "get t ''taskId''" "toggle_patch t"]
          in \<open>simp add: toggle_click_def\<close>)
  next
    case (BeginEdit t)
    show ?thesis
      unfolding p BeginEdit
      by (rule user_settled [where a = "BeginEdit t"]) (use c in \<open>simp add: settled_def\<close>)
  next
    case CancelEdit
    show ?thesis
      unfolding p CancelEdit
      by (rule user_settled [where a = CancelEdit]) (use c in \<open>simp add: settled_def\<close>)
  next
    case (Delete t confirmed)
    show ?thesis
    proof (cases confirmed)
      case True
      show ?thesis
        unfolding p Delete
        by (rule after_user [where a = "Delete t confirmed"])
          (use removeTask_events [OF c, of env "get t ''taskId''"] True
            in \<open>simp add: delete_click_def\<close>)
    next
      case False
      show ?thesis
        unfolding p Delete
        by (rule user_settled [where a = "Delete t confirmed"])
          (use c False in \<open>simp add: delete_click_def\<close>)
    qed
  next
    case (FilterChange f)
    show ?thesis
      unfolding p FilterChange
      by (rule user_settled [where a = "FilterChange f"]) (use c in \<open>simp add: settled_def\<close>)
  next
    case (FieldChange k v)
    show ?thesis
      unfolding p FieldChange
      by (rule user_settled [where a = "FieldChange k v"]) (use c in \<open>simp add: settled_def\<close>)
  qed
qed

lemma foldl_step_events:
  "settled c p \<Longrightarrow> \<exists>evs. settled (foldl (handle env) c evs) (foldl (step env) p acts)"
proof (induction acts arbitrary: c p)
  case Nil
  then have "settled (foldl (handle env) c []) (foldl (step env) p [])" by simp
  then show ?case by blast
next
  case (Cons a acts)
  from step_events [OF Cons.prems] obtain evs1 where
    1: "settled (foldl (handle env) c evs1) (step env p a)" by blast
  from Cons.IH [OF 1] obtain evs2 where
    "settled (foldl (handle env) (foldl (handle env) c evs1) evs2) (foldl (step env) (step env p a) acts)"
    by blast
  then have "settled (foldl (handle env) c (evs1 @ evs2)) (foldl (step env) p (a # acts))"
    by simp
  then show ?case by blast
qed

lemma mount_events: "\<exists>evs. settled (exec env evs) (mount env w)"
proof -
  have "settled \<lparr>app = initial_app, threads = [], calls = [], handled = []\<rparr>
      (initial_app, \<lparr>world = w, netlog = []\<rparr>)"
    by (simp add: settled_def)
  from loadTasks_events [OF this] show ?thesis
    by (simp add: exec_def start_def mount_def)
qed

text \<open>
  Every run is an execution: there are events that bring the page to the state of
  the run, with the answered requests of the run, handled in the order of the calls,
  and no call left waiting.
\<close>

lemma run_is_execution: "\<exists>evs. settled (exec env evs) (run env w acts)"
proof -
  from mount_events [of env w] obtain evs1 where 1: "settled (exec env evs1) (mount env w)" ..
  from foldl_step_events [OF 1] obtain evs2 where
    "settled (foldl (handle env) (exec env evs1) evs2) (foldl (step env) (mount env w) acts)"
    by blast
  then have "settled (exec env (evs1 @ evs2)) (run env w acts)"
    by (simp add: exec_def run_def)
  then show ?thesis ..
qed

end
